theory Spec2Isabelle
  imports Main
begin

section \<open>Strings\<close>

text \<open>
  A Python string is a sequence of Unicode characters. It is kept as the bytes of its
  UTF-8 encoding: a character of ASCII is one byte below 128, any other character a
  lead byte followed by continuation bytes (128 to 191). \<open>utf8_chars\<close> splits a
  string into its characters.
\<close>

definition is_ascii :: "char \<Rightarrow> bool" where
  "is_ascii c = ((of_char c :: nat) < 128)"

definition is_continuation :: "char \<Rightarrow> bool" where
  "is_continuation c = (128 \<le> (of_char c :: nat) \<and> (of_char c :: nat) < 192)"

function utf8_chars :: "string \<Rightarrow> string list" where
  "utf8_chars [] = []"
| "utf8_chars (c # cs) =
     (if is_ascii c then [c] # utf8_chars cs
      else (c # takeWhile is_continuation cs) # utf8_chars (dropWhile is_continuation cs))"
  by pat_completeness auto
termination
  by (relation "measure length") (auto simp: length_dropWhile_le less_Suc_eq_le)

text \<open>
  \<^verbatim>\<open>str.upper()\<close>: the letters \<^verbatim>\<open>a\<close> to \<^verbatim>\<open>z\<close> become \<^verbatim>\<open>A\<close> to \<^verbatim>\<open>Z\<close> and
  every other character of ASCII stays; a character outside ASCII becomes its upper-case
  form in the Unicode database of the Python runtime, which can be several characters.
  That table is not part of the program: it is the parameter \<open>table\<close>.
\<close>

definition upper_char :: "char \<Rightarrow> char" where
  "upper_char c =
     (let n = (of_char c :: nat) in if 97 \<le> n \<and> n \<le> 122 then char_of (n - 32) else c)"

definition upper_of :: "(string \<Rightarrow> string) \<Rightarrow> string \<Rightarrow> string" where
  "upper_of table u =
     (case u of [c] \<Rightarrow> if is_ascii c then [upper_char c] else table u | _ \<Rightarrow> table u)"

definition upper :: "(string \<Rightarrow> string) \<Rightarrow> string \<Rightarrow> string" where
  "upper table s = concat (map (upper_of table) (utf8_chars s))"

text \<open>
  \<^verbatim>\<open>sub in s\<close> for strings: \<^verbatim>\<open>sub\<close> occurs in \<^verbatim>\<open>s\<close> at some position. (For a
  \<^verbatim>\<open>sub\<close> of ASCII characters, it occurs among the characters exactly when its bytes
  occur among the bytes.)
\<close>

fun py_in :: "string \<Rightarrow> string \<Rightarrow> bool" where
  "py_in sub [] = (sub = [])"
| "py_in sub (c # cs) = (take (length sub) (c # cs) = sub \<or> py_in sub cs)"

text \<open>
  \<^verbatim>\<open>str.strip()\<close>: leading and trailing whitespace removed. The whitespace of ASCII
  is tab, line feed, vertical tab, form feed, carriage return, the four separators 28
  to 31 and space; which characters outside ASCII are whitespace is again a table of
  the Unicode database, the parameter \<open>space\<close>.
\<close>

definition is_space :: "char \<Rightarrow> bool" where
  "is_space c = (let n = (of_char c :: nat) in (9 \<le> n \<and> n \<le> 13) \<or> (28 \<le> n \<and> n \<le> 32))"

definition is_space_of :: "(string \<Rightarrow> bool) \<Rightarrow> string \<Rightarrow> bool" where
  "is_space_of space u =
     (case u of [c] \<Rightarrow> if is_ascii c then is_space c else space u | _ \<Rightarrow> space u)"

definition strip :: "(string \<Rightarrow> bool) \<Rightarrow> string \<Rightarrow> string" where
  "strip space s =
     concat (rev (dropWhile (is_space_of space)
                    (rev (dropWhile (is_space_of space) (utf8_chars s)))))"

section \<open>Python values, as the decoded JSON of the provider's answers\<close>

text \<open>
  Every value the program handles comes out of \<^verbatim>\<open>response.json()\<close>, from the command
  line or from a constant: \<^verbatim>\<open>None\<close>, booleans, integers, strings, lists and
  dictionaries. A dictionary is kept as the list of its items (keys distinct after
  decoding). Numbers that are not integers are not modelled.
\<close>

datatype json =
    JNull
  | JBool bool
  | JInt int
  | JStr string
  | JArr "json list"
  | JObj "(string \<times> json) list"

text \<open>The exceptions the program can raise, each a value.\<close>

datatype error =
    CalledProcessError
  | FileNotFoundError
  | TransportError
  | HTTPStatusError
  | JSONDecodeError
  | KeyError string
  | TypeError
  | AttributeError
  | ValueError string
  | Exception string

text \<open>\<^verbatim>\<open>d[key]\<close> with a string key: only a dictionary can answer.\<close>

fun py_getitem :: "json \<Rightarrow> string \<Rightarrow> error + json" where
  "py_getitem (JObj kvs) k =
     (case map_of kvs k of None \<Rightarrow> Inl (KeyError k) | Some v \<Rightarrow> Inr v)"
| "py_getitem _ k = Inl TypeError"

text \<open>\<^verbatim>\<open>d.get(key, default)\<close>: a method of dictionaries only.\<close>

fun py_get :: "json \<Rightarrow> string \<Rightarrow> json \<Rightarrow> error + json" where
  "py_get (JObj kvs) k d = (case map_of kvs k of None \<Rightarrow> Inr d | Some v \<Rightarrow> Inr v)"
| "py_get _ k d = Inl AttributeError"

text \<open>Truth value testing, as \<^verbatim>\<open>not x\<close> and \<^verbatim>\<open>if x\<close> use it.\<close>

fun py_truthy :: "json \<Rightarrow> bool" where
  "py_truthy JNull = False"
| "py_truthy (JBool b) = b"
| "py_truthy (JInt n) = (n \<noteq> 0)"
| "py_truthy (JStr s) = (s \<noteq> [])"
| "py_truthy (JArr xs) = (xs \<noteq> [])"
| "py_truthy (JObj kvs) = (kvs \<noteq> [])"

text \<open>
  Iteration (\<^verbatim>\<open>for x in v\<close>, \<^verbatim>\<open>set(v)\<close>): a list yields its elements, a dictionary
  its keys, a string its characters; anything else is not iterable.
\<close>

fun py_iter :: "json \<Rightarrow> error + json list" where
  "py_iter (JArr xs) = Inr xs"
| "py_iter (JObj kvs) = Inr (map (\<lambda>kv. JStr (fst kv)) kvs)"
| "py_iter (JStr s) = Inr (map JStr (utf8_chars s))"
| "py_iter _ = Inl TypeError"

text \<open>
  The members of a Python set are hashable values compared with \<^verbatim>\<open>==\<close>: \<^verbatim>\<open>True\<close> and
  \<^verbatim>\<open>1\<close> are the same member, as are \<^verbatim>\<open>False\<close> and \<^verbatim>\<open>0\<close>; lists and dictionaries are
  unhashable.
\<close>

datatype atom = ANone | ANum int | AStr string

fun py_hash :: "json \<Rightarrow> error + atom" where
  "py_hash JNull = Inr ANone"
| "py_hash (JBool b) = Inr (ANum (if b then 1 else 0))"
| "py_hash (JInt n) = Inr (ANum n)"
| "py_hash (JStr s) = Inr (AStr s)"
| "py_hash (JArr xs) = Inl TypeError"
| "py_hash (JObj kvs) = Inl TypeError"

fun py_hash_all :: "json list \<Rightarrow> error + atom list" where
  "py_hash_all [] = Inr []"
| "py_hash_all (x # xs) =
     (case py_hash x of
        Inl e \<Rightarrow> Inl e
      | Inr a \<Rightarrow> (case py_hash_all xs of Inl e \<Rightarrow> Inl e | Inr as \<Rightarrow> Inr (a # as)))"

definition py_set :: "json \<Rightarrow> error + atom set" where
  "py_set v =
     (case py_iter v of
        Inl e \<Rightarrow> Inl e
      | Inr xs \<Rightarrow> (case py_hash_all xs of Inl e \<Rightarrow> Inl e | Inr as \<Rightarrow> Inr (set as)))"

text \<open>A \<^verbatim>\<open>list[str]\<close> (an egress range, an ACL) as a value.\<close>

definition str_list :: "string list \<Rightarrow> json" where
  "str_list xs = JArr (map JStr xs)"

section \<open>The outside world and the state of the process\<close>

text \<open>
  The URL of a request is kept as the template it was formatted from, with the values
  put into it; \<^verbatim>\<open>Projects\<close> carries the \<^verbatim>\<open>containerParentId\<close> parameter.
\<close>

datatype endpoint =
    Cluster string string
  | Projects string
  | Project string
  | Instances json
  | Instance json json

record request =
  endpoint :: endpoint
  bearer :: string

text \<open>
  An answer: its status code and its body decoded as JSON (\<open>None\<close> when the body
  is not JSON).
\<close>

record response =
  status_code :: nat
  json_body :: "json option"

text \<open>What \<^verbatim>\<open>subprocess.run\<close> returns.\<close>

record completed_process =
  returncode :: int
  stdout :: string

record StackITSettings =
  stackit_service_account_key_path :: string

record ClusterConfig =
  cc_name :: string
  cc_project_id :: string
  cc_egress_range :: json

record OrgSettings = StackITSettings +
  prod_cluster :: ClusterConfig
  non_prod_cluster :: ClusterConfig

text \<open>
  The world outside the process: the \<^verbatim>\<open>stackit\<close> command line tool (\<open>None\<close>: it
  cannot be started), the provider's answer to a request (\<open>None\<close>: no answer, the
  transport fails), the settings the environment gives, and the two tables of the
  Unicode database of the Python runtime for characters outside ASCII (the upper-case
  form of a character, and whether it is whitespace). The provider answers the same
  request the same way throughout a run.
\<close>

record world =
  stackit_cli :: "string \<Rightarrow> completed_process option"
  httpx_get :: "request \<Rightarrow> response option"
  env_StackITSettings :: "unit StackITSettings_scheme"
  env_OrgSettings :: OrgSettings
  unicode_upper :: "string \<Rightarrow> string"
  unicode_space :: "string \<Rightarrow> bool"

text \<open>The records of the logger: the level and the message with its arguments.\<close>

datatype level = INFO | ERROR

datatype message =
    Starting
  | GettingClusterEgressIPs
  | ProdClusterEgressIP json
  | NonProdClusterEgressIP json
  | GettingAllProjects
  | NoProjectsFound
  | FoundProjects nat
  | CheckingAllProjects
  | UsingNonProd json
  | UsingProd json
  | NoDatabases
  | AclCorrect json json
  | AclCheckFailed json json json json
  | AllCorrect

text \<open>
  The state of the process: the cache of \<^verbatim>\<open>lru_cache\<close> around \<^verbatim>\<open>get_bearer_token\<close>
  (most recently used first), the key paths the command line tool was run with, the
  requests sent, and the log, each in order of time.
\<close>

record state =
  token_cache :: "(string \<times> string) list"
  activations :: "string list"
  requests :: "request list"
  log :: "(level \<times> message) list"

definition init_state :: state where
  "init_state = \<lparr>token_cache = [], activations = [], requests = [], log = []\<rparr>"

text \<open>
  A computation reads and changes the state and returns a value or raises; the state
  reached is kept either way. \<open>bind_m\<close> sequences two computations, \<open>bind_e\<close> a
  pure step that may raise and a computation.
\<close>

type_synonym 'a m = "state \<Rightarrow> (error + 'a) \<times> state"

definition return :: "'a \<Rightarrow> 'a m" where
  "return x = (\<lambda>s. (Inr x, s))"

definition raise :: "error \<Rightarrow> 'a m" where
  "raise e = (\<lambda>s. (Inl e, s))"

definition bind_m :: "'a m \<Rightarrow> ('a \<Rightarrow> 'b m) \<Rightarrow> 'b m" where
  "bind_m c f = (\<lambda>s. case c s of (Inl e, s') \<Rightarrow> (Inl e, s') | (Inr x, s') \<Rightarrow> f x s')"

definition bind_e :: "error + 'a \<Rightarrow> ('a \<Rightarrow> 'b m) \<Rightarrow> 'b m" where
  "bind_e r f = (case r of Inl e \<Rightarrow> raise e | Inr x \<Rightarrow> f x)"

text \<open>
  The root logger is set to level INFO: \<^verbatim>\<open>logger.info\<close> and \<^verbatim>\<open>logger.error\<close> add a
  record, \<^verbatim>\<open>logger.debug\<close> adds none.
\<close>

definition logger_info :: "message \<Rightarrow> unit m" where
  "logger_info msg = (\<lambda>s. (Inr (), s\<lparr>log := log s @ [(INFO, msg)]\<rparr>))"

definition logger_error :: "message \<Rightarrow> unit m" where
  "logger_error msg = (\<lambda>s. (Inr (), s\<lparr>log := log s @ [(ERROR, msg)]\<rparr>))"

section \<open>The credential resolver\<close>

text \<open>
  The body of \<^verbatim>\<open>get_bearer_token\<close>: one run of the command line tool, recorded
  when the tool was started (\<^verbatim>\<open>check=True\<close> raises on a return code other than 0),
  and the output stripped.
\<close>

definition get_bearer_token_wrapped :: "world \<Rightarrow> string \<Rightarrow> string m" where
  "get_bearer_token_wrapped w key_path =
     (\<lambda>s.
        case stackit_cli w key_path of
          None \<Rightarrow> (Inl FileNotFoundError, s)
        | Some result \<Rightarrow>
            let s1 = s\<lparr>activations := activations s @ [key_path]\<rparr> in
            if returncode result \<noteq> 0 then (Inl CalledProcessError, s1)
            else (Inr (strip (unicode_space w) (stdout result)), s1))"

text \<open>
  \<^verbatim>\<open>@lru_cache\<close> with no argument keeps the results of the 128 most recently used
  arguments. A hit returns the stored result and makes the argument the most recent
  one; a miss calls the function, and stores the result when the call returns (an
  exception goes through and nothing is stored), dropping the least recently used
  entry when the cache is full.
\<close>

definition lru_maxsize :: nat where
  "lru_maxsize = 128"

definition lru_cache :: "(string \<Rightarrow> string m) \<Rightarrow> string \<Rightarrow> string m" where
  "lru_cache f key =
     (\<lambda>s. case map_of (token_cache s) key of
            Some v \<Rightarrow>
              (Inr v, s\<lparr>token_cache := (key, v) # filter (\<lambda>kv. fst kv \<noteq> key) (token_cache s)\<rparr>)
          | None \<Rightarrow>
              (case f key s of
                 (Inl e, s') \<Rightarrow> (Inl e, s')
               | (Inr v, s') \<Rightarrow>
                   (Inr v, s'\<lparr>token_cache := take lru_maxsize ((key, v) # token_cache s')\<rparr>)))"

definition get_bearer_token :: "world \<Rightarrow> string \<Rightarrow> string m" where
  "get_bearer_token w = lru_cache (get_bearer_token_wrapped w)"

section \<open>The API client\<close>

text \<open>
  \<^verbatim>\<open>httpx.get(url, headers=...)\<close>: the headers are evaluated first, which asks for the
  token; then the request is sent. Each operation then logs the text of the response at
  level DEBUG, which adds no record, so the line has no counterpart below.
\<close>

definition send :: "world \<Rightarrow> request \<Rightarrow> response m" where
  "send w req =
     (\<lambda>s. (case httpx_get w req of None \<Rightarrow> Inl TransportError | Some r \<Rightarrow> Inr r,
            s\<lparr>requests := requests s @ [req]\<rparr>))"

definition api_get :: "world \<Rightarrow> endpoint \<Rightarrow> 'a StackITSettings_scheme \<Rightarrow> response m" where
  "api_get w ep config =
     bind_m (get_bearer_token w (stackit_service_account_key_path config)) (\<lambda>token.
     send w \<lparr>endpoint = ep, bearer = token\<rparr>)"

text \<open>\<^verbatim>\<open>response.raise_for_status()\<close> raises unless the status code is a 2xx one.\<close>

definition raise_for_status :: "response \<Rightarrow> error + unit" where
  "raise_for_status r =
     (if 200 \<le> status_code r \<and> status_code r < 300 then Inr () else Inl HTTPStatusError)"

definition response_json :: "response \<Rightarrow> error + json" where
  "response_json r = (case json_body r of None \<Rightarrow> Inl JSONDecodeError | Some v \<Rightarrow> Inr v)"

text \<open>The error of a cluster that reports no egress range.\<close>

definition EgressRangeNotFound :: error where
  "EgressRangeNotFound = ValueError ''Egress IP not found in cluster details.''"

definition get_cluster_egress_ip ::
  "world \<Rightarrow> string \<Rightarrow> string \<Rightarrow> 'a StackITSettings_scheme \<Rightarrow> json m" where
  "get_cluster_egress_ip w project_id cluster_name config =
     bind_m (api_get w (Cluster project_id cluster_name) config) (\<lambda>response.
     bind_e (raise_for_status response) (\<lambda>_.
     bind_e (response_json response) (\<lambda>cluster_data.
     bind_e (py_getitem cluster_data ''status'') (\<lambda>status.
     bind_e (py_getitem status ''egressAddressRanges'') (\<lambda>egress_ip.
     if \<not> py_truthy egress_ip
     then raise EgressRangeNotFound
     else return egress_ip)))))"

text \<open>The comprehension \<^verbatim>\<open>[(p.get("projectId"), p.get("name")) for p in projects]\<close>.\<close>

fun project_pairs :: "json list \<Rightarrow> error + (json \<times> json) list" where
  "project_pairs [] = Inr []"
| "project_pairs (p # ps) =
     (case py_get p ''projectId'' JNull of
        Inl e \<Rightarrow> Inl e
      | Inr i \<Rightarrow>
          (case py_get p ''name'' JNull of
             Inl e \<Rightarrow> Inl e
           | Inr n \<Rightarrow>
               (case project_pairs ps of Inl e \<Rightarrow> Inl e | Inr r \<Rightarrow> Inr ((i, n) # r))))"

definition get_all_projects ::
  "world \<Rightarrow> string \<Rightarrow> 'a StackITSettings_scheme \<Rightarrow> (json \<times> json) list m" where
  "get_all_projects w organization_id config =
     bind_m (api_get w (Projects organization_id) config) (\<lambda>response.
     bind_e (raise_for_status response) (\<lambda>_.
     bind_e (response_json response) (\<lambda>body.
     bind_e (py_getitem body ''items'') (\<lambda>projects.
     bind_e (py_iter projects) (\<lambda>ps.
     bind_e (project_pairs ps) return)))))"

fun get_project_details ::
  "world \<Rightarrow> string list \<Rightarrow> 'a StackITSettings_scheme \<Rightarrow> (json \<times> json) list m" where
  "get_project_details w [] config = return []"
| "get_project_details w (project_id # project_ids) config =
     bind_m (api_get w (Project project_id) config) (\<lambda>response.
     bind_e (raise_for_status response) (\<lambda>_.
     bind_e (response_json response) (\<lambda>body.
     bind_e (py_getitem body ''name'') (\<lambda>project_name.
     bind_m (get_project_details w project_ids config) (\<lambda>projects.
     return ((JStr project_id, project_name) # projects))))))"

definition get_databases_in_project ::
  "world \<Rightarrow> json \<Rightarrow> 'a StackITSettings_scheme \<Rightarrow> json m" where
  "get_databases_in_project w project_id config =
     bind_m (api_get w (Instances project_id) config) (\<lambda>response.
     bind_e (raise_for_status response) (\<lambda>_.
     bind_e (response_json response) (\<lambda>body.
     bind_e (py_get body ''items'' (JArr [])) return)))"

definition get_acls :: "world \<Rightarrow> json \<Rightarrow> json \<Rightarrow> 'a StackITSettings_scheme \<Rightarrow> json m" where
  "get_acls w project_id instance_id config =
     bind_m (api_get w (Instance project_id instance_id) config) (\<lambda>response.
     bind_e (raise_for_status response) (\<lambda>_.
     bind_e (response_json response) (\<lambda>instance_details.
     bind_e (py_getitem instance_details ''item'') (\<lambda>item.
     bind_e (py_getitem item ''acl'') (\<lambda>acl.
     bind_e (py_get acl ''items'' (JArr [])) return)))))"

section \<open>The ACL validator\<close>

text \<open>The test \<^verbatim>\<open>set(acl_rules) == set(cluster_egress_range)\<close>, left operand first.\<close>

definition acl_is_correct :: "json \<Rightarrow> json \<Rightarrow> error + bool" where
  "acl_is_correct acl_rules cluster_egress_range =
     (case py_set acl_rules of
        Inl e \<Rightarrow> Inl e
      | Inr a \<Rightarrow>
          (case py_set cluster_egress_range of Inl e \<Rightarrow> Inl e | Inr b \<Rightarrow> Inr (a = b)))"

text \<open>
  The loop \<^verbatim>\<open>for db in databases\<close> of \<^verbatim>\<open>check_database_acl_of_project\<close>, the flag
  \<^verbatim>\<open>all_acls_are_correct\<close> passed along.
\<close>

fun check_dbs ::
  "world \<Rightarrow> json \<Rightarrow> json \<Rightarrow> 'a StackITSettings_scheme \<Rightarrow> json list \<Rightarrow> bool \<Rightarrow> bool m" where
  "check_dbs w project_id cluster_egress_range settings [] all_acls_are_correct =
     return all_acls_are_correct"
| "check_dbs w project_id cluster_egress_range settings (db # dbs) all_acls_are_correct =
     bind_e (py_getitem db ''id'') (\<lambda>db_instance_id.
     bind_e (py_getitem db ''name'') (\<lambda>db_name.
     bind_m (get_acls w project_id db_instance_id settings) (\<lambda>acl_rules.
     bind_e (acl_is_correct acl_rules cluster_egress_range) (\<lambda>correct.
     if correct
     then bind_m (logger_info (AclCorrect db_name db_instance_id)) (\<lambda>_.
          check_dbs w project_id cluster_egress_range settings dbs all_acls_are_correct)
     else bind_m (logger_error
                    (AclCheckFailed db_name db_instance_id cluster_egress_range acl_rules)) (\<lambda>_.
          check_dbs w project_id cluster_egress_range settings dbs False)))))"

definition check_database_acl_of_project ::
  "world \<Rightarrow> json \<Rightarrow> json \<Rightarrow> 'a StackITSettings_scheme \<Rightarrow> bool m" where
  "check_database_acl_of_project w project_id cluster_egress_range settings =
     bind_m (get_databases_in_project w project_id settings) (\<lambda>databases.
     bind_m (if \<not> py_truthy databases then logger_info NoDatabases else return ()) (\<lambda>_.
     bind_e (py_iter databases) (\<lambda>dbs.
     check_dbs w project_id cluster_egress_range settings dbs True)))"

section \<open>The project classifier\<close>

text \<open>\<^verbatim>\<open>project_name.upper()\<close>: a method of strings only.\<close>

fun py_upper :: "(string \<Rightarrow> string) \<Rightarrow> json \<Rightarrow> error + string" where
  "py_upper table (JStr s) = Inr (upper table s)"
| "py_upper table _ = Inl AttributeError"

definition get_egress_range :: "world \<Rightarrow> json \<Rightarrow> json \<Rightarrow> json \<Rightarrow> json m" where
  "get_egress_range w project_name prod_cluster_egress_range non_prod_cluster_egress_range =
     bind_e (py_upper (unicode_upper w) project_name) (\<lambda>u.
     if py_in ''NON-PROD'' u
     then bind_m (logger_info (UsingNonProd project_name)) (\<lambda>_.
          return non_prod_cluster_egress_range)
     else bind_m (logger_info (UsingProd project_name)) (\<lambda>_.
          return prod_cluster_egress_range))"

section \<open>The run orchestrators\<close>

text \<open>\<^verbatim>\<open>ClusterConfig.get_egress_range\<close> sets the field of the cluster it is called on.\<close>

definition ClusterConfig_get_egress_range ::
  "world \<Rightarrow> ClusterConfig \<Rightarrow> 'a StackITSettings_scheme \<Rightarrow> ClusterConfig m" where
  "ClusterConfig_get_egress_range w self settings =
     bind_m (get_cluster_egress_ip w (cc_project_id self) (cc_name self) settings) (\<lambda>r.
     return (self\<lparr>cc_egress_range := r\<rparr>))"

text \<open>The defaults of \<^verbatim>\<open>OrgSettings\<close>, when the environment sets nothing.\<close>

definition default_OrgSettings :: OrgSettings where
  "default_OrgSettings =
     \<lparr>stackit_service_account_key_path = ''../stackit-credentials.json'',
      prod_cluster =
        \<lparr>cc_name = ''production'',
         cc_project_id = ''df003e90-b77d-4d31-a06c-cd7f4013076d'',
         cc_egress_range = JNull\<rparr>,
      non_prod_cluster =
        \<lparr>cc_name = ''non-prod'',
         cc_project_id = ''dceaea5e-fc88-4adb-8c7f-6bcb112835bb'',
         cc_egress_range = JNull\<rparr>\<rparr>"

definition default_StackITSettings :: "unit StackITSettings_scheme" where
  "default_StackITSettings =
     \<lparr>stackit_service_account_key_path = ''../stackit-credentials.json''\<rparr>"

text \<open>
  The loop \<^verbatim>\<open>for project_id, project_name in projects\<close>, the same in both commands but
  for where the two ranges come from; the flag \<^verbatim>\<open>all_acls_are_correct\<close> is passed along.
\<close>

fun check_projects ::
  "world \<Rightarrow> json \<Rightarrow> json \<Rightarrow> 'a StackITSettings_scheme \<Rightarrow> (json \<times> json) list \<Rightarrow> bool \<Rightarrow> bool m"
  where
  "check_projects w prod_range non_prod_range settings [] all_acls_are_correct =
     return all_acls_are_correct"
| "check_projects w prod_range non_prod_range settings (p # projects) all_acls_are_correct =
     bind_m (get_egress_range w (snd p) prod_range non_prod_range) (\<lambda>cluster_egress_range.
     bind_m (check_database_acl_of_project w (fst p) cluster_egress_range settings) (\<lambda>ok.
     check_projects w prod_range non_prod_range settings projects
       (if \<not> ok then False else all_acls_are_correct)))"

text \<open>The error both commands end with after a mismatch (the message without its emoji).\<close>

definition acl_mismatch :: error where
  "acl_mismatch = Exception ''Some database ACLs do not match the expected cluster egress IP.''"

definition report :: "bool \<Rightarrow> unit m" where
  "report all_acls_are_correct =
     (if all_acls_are_correct then logger_info AllCorrect else raise acl_mismatch)"

definition validate_org :: "world \<Rightarrow> string \<Rightarrow> unit m" where
  "validate_org w organization_id =
     bind_m (logger_info Starting) (\<lambda>_.
     let settings = env_OrgSettings w in
     bind_m (logger_info GettingClusterEgressIPs) (\<lambda>_.
     bind_m (ClusterConfig_get_egress_range w (prod_cluster settings) settings) (\<lambda>c.
     let settings = settings\<lparr>prod_cluster := c\<rparr> in
     bind_m (ClusterConfig_get_egress_range w (non_prod_cluster settings) settings) (\<lambda>c.
     let settings = settings\<lparr>non_prod_cluster := c\<rparr> in
     bind_m (logger_info (ProdClusterEgressIP (cc_egress_range (prod_cluster settings)))) (\<lambda>_.
     bind_m (logger_info
               (NonProdClusterEgressIP (cc_egress_range (non_prod_cluster settings)))) (\<lambda>_.
     bind_m (logger_info GettingAllProjects) (\<lambda>_.
     bind_m (get_all_projects w organization_id settings) (\<lambda>projects.
     if projects = [] then logger_info NoProjectsFound
     else
       bind_m (logger_info (FoundProjects (length projects))) (\<lambda>_.
       bind_m (logger_info CheckingAllProjects) (\<lambda>_.
       bind_m (check_projects w
                 (cc_egress_range (prod_cluster settings))
                 (cc_egress_range (non_prod_cluster settings))
                 settings projects True)
         report))))))))))"

text \<open>An option of type \<^verbatim>\<open>list[str] | None\<close> as a value.\<close>

fun opt_str_list :: "string list option \<Rightarrow> json" where
  "opt_str_list None = JNull"
| "opt_str_list (Some xs) = str_list xs"

definition validate_projects ::
  "world \<Rightarrow> string list \<Rightarrow> string list option \<Rightarrow> string list option \<Rightarrow> unit m" where
  "validate_projects w project_ids prod_egress_range non_prod_egress_range =
     bind_m (logger_info Starting) (\<lambda>_.
     let settings = env_StackITSettings w in
     bind_m (get_project_details w project_ids settings) (\<lambda>projects.
     bind_m (check_projects w
               (opt_str_list prod_egress_range)
               (opt_str_list non_prod_egress_range)
               settings projects True)
       report))"

section \<open>The command line of \<^verbatim>\<open>validate-projects\<close>\<close>

text \<open>
  The two options as \<^verbatim>\<open>typer.Option\<close> declares them: the help text, the environment
  variable to read when the option is not given (the declarations pass no
  \<^verbatim>\<open>envvar\<close>), and the default.
\<close>

record typer_option =
  opt_help :: string
  opt_envvar :: "string option"
  opt_default :: "string list option"

definition prod_egress_range_option :: typer_option where
  "prod_egress_range_option =
     \<lparr>opt_help = ''Egress IP Range of the Production Cluster. Env: PROD_EGRESS_RANGE'',
      opt_envvar = None,
      opt_default = None\<rparr>"

definition non_prod_egress_range_option :: typer_option where
  "non_prod_egress_range_option =
     \<lparr>opt_help = ''Egress IP Range of the Non-Prod Cluster. Env: NON_PROD_EGRESS_RANGE'',
      opt_envvar = None,
      opt_default = None\<rparr>"

text \<open>
  The command line takes at least one project id: \<open>project_ids\<close> below is that list
  (with none given, typer ends with a usage error and the function is not called).
  The value typer passes for a list option: the values given on the command line;
  with none given, the value of the declared environment variable when there is one
  and it is set; otherwise the default.
\<close>

definition typer_option_value ::
  "typer_option \<Rightarrow> (string \<Rightarrow> string list option) \<Rightarrow> string list \<Rightarrow> string list option" where
  "typer_option_value opt env given =
     (if given \<noteq> [] then Some given
      else case opt_envvar opt of
             None \<Rightarrow> opt_default opt
           | Some v \<Rightarrow> (case env v of None \<Rightarrow> opt_default opt | Some xs \<Rightarrow> Some xs))"

definition validate_projects_command ::
  "world \<Rightarrow> (string \<Rightarrow> string list option) \<Rightarrow> string list \<Rightarrow> string list \<Rightarrow> string list
     \<Rightarrow> unit m" where
  "validate_projects_command w env project_ids prod_given non_prod_given =
     validate_projects w project_ids
       (typer_option_value prod_egress_range_option env prod_given)
       (typer_option_value non_prod_egress_range_option env non_prod_given)"

section \<open>Notions of the specification\<close>

text \<open>
  ``Contains the marker in any letter case'': at some position of the name, the next
  characters are those of the marker, each in its lower-case or its upper-case form.
\<close>

definition lowercase :: string where
  "lowercase = ''abcdefghijklmnopqrstuvwxyz''"

definition uppercase :: string where
  "uppercase = ''ABCDEFGHIJKLMNOPQRSTUVWXYZ''"

definition same_letter :: "char \<Rightarrow> char \<Rightarrow> bool" where
  "same_letter c d =
     (c = d \<or> (c, d) \<in> set (zip lowercase uppercase) \<or> (d, c) \<in> set (zip lowercase uppercase))"

definition occurs_any_case :: "string \<Rightarrow> string \<Rightarrow> bool" where
  "occurs_any_case marker s =
     list_ex (\<lambda>i. list_all2 same_letter (take (length marker) (drop i s)) marker)
       [0..<Suc (length s)]"

text \<open>
  A name is read letter by letter when its upper-case form is: every character of it
  outside ASCII has an upper-case form (in the table) that is not empty and has no
  character of the marker \<^verbatim>\<open>NON-PROD\<close>. Every name of ASCII characters is such a name.
\<close>

definition is_ascii_char :: "string \<Rightarrow> bool" where
  "is_ascii_char u = (case u of [c] \<Rightarrow> is_ascii c | _ \<Rightarrow> False)"

definition no_marker_letter :: "(string \<Rightarrow> string) \<Rightarrow> string \<Rightarrow> bool" where
  "no_marker_letter table u =
     (table u \<noteq> [] \<and> list_all (\<lambda>b. b \<notin> set ''NON-PROD'') (table u))"

definition letterwise :: "(string \<Rightarrow> string) \<Rightarrow> string \<Rightarrow> bool" where
  "letterwise table s =
     list_all (\<lambda>u. is_ascii_char u \<or> no_marker_letter table u) (utf8_chars s)"

text \<open>
  The entry of the Unicode database for U+0149 (small n preceded by apostrophe, in
  UTF-8 the bytes C5 89): its upper-case form is the two characters U+02BC (bytes CA BC)
  and \<^verbatim>\<open>N\<close>. The entry for U+00A0 (no-break space, bytes C2 A0): it is whitespace.
  \<open>upper_0149\<close> and \<open>space_00A0\<close> are tables with these entries that leave every
  other character as it is: they are the tables of the database on every string whose
  other characters outside ASCII have no case and are no whitespace.
\<close>

definition upper_0149 :: "string \<Rightarrow> string" where
  "upper_0149 u =
     (if u = [CHR 0xC5, CHR 0x89] then [CHR 0xCA, CHR 0xBC, CHR ''N''] else u)"

definition space_00A0 :: "string \<Rightarrow> bool" where
  "space_00A0 u = (u = [CHR 0xC2, CHR 0xA0])"

definition n_apostrophe_on_prod :: string where
  "n_apostrophe_on_prod = [CHR 0xC5, CHR 0x89] @ ''on-prod''"

definition euro_non_prod :: string where
  "euro_non_prod = [CHR 0xE2, CHR 0x82, CHR 0xAC] @ ''-non-prod''"

text \<open>
  Authentication succeeds in a state: a call for the token of the key path returns it
  there, from the cache or from the command line tool.
\<close>

definition token_ready :: "world \<Rightarrow> string \<Rightarrow> string \<Rightarrow> state \<Rightarrow> bool" where
  "token_ready w key_path token s = (fst (get_bearer_token w key_path s) = Inr token)"

text \<open>
  What the provider holds, read with a token: the decoded body of its answer to a
  request when the status is a success, and from it the database instances of a
  project, the ACL rules of an instance, the name of a project.
\<close>

definition answer :: "world \<Rightarrow> string \<Rightarrow> endpoint \<Rightarrow> error + json" where
  "answer w token ep =
     (case httpx_get w \<lparr>endpoint = ep, bearer = token\<rparr> of
        None \<Rightarrow> Inl TransportError
      | Some r \<Rightarrow> (case raise_for_status r of Inl e \<Rightarrow> Inl e | Inr _ \<Rightarrow> response_json r))"

definition databases_of :: "world \<Rightarrow> string \<Rightarrow> json \<Rightarrow> error + json" where
  "databases_of w token project_id =
     (case answer w token (Instances project_id) of
        Inl e \<Rightarrow> Inl e
      | Inr body \<Rightarrow> py_get body ''items'' (JArr []))"

definition acls_of :: "world \<Rightarrow> string \<Rightarrow> json \<Rightarrow> json \<Rightarrow> error + json" where
  "acls_of w token project_id instance_id =
     (case answer w token (Instance project_id instance_id) of
        Inl e \<Rightarrow> Inl e
      | Inr instance_details \<Rightarrow>
          (case py_getitem instance_details ''item'' of
             Inl e \<Rightarrow> Inl e
           | Inr item \<Rightarrow>
               (case py_getitem item ''acl'' of
                  Inl e \<Rightarrow> Inl e
                | Inr acl \<Rightarrow> py_get acl ''items'' (JArr []))))"

definition project_name_of :: "world \<Rightarrow> string \<Rightarrow> string \<Rightarrow> error + json" where
  "project_name_of w token project_id =
     (case answer w token (Project project_id) of
        Inl e \<Rightarrow> Inl e
      | Inr body \<Rightarrow> py_getitem body ''name'')"

text \<open>
  The check of one database instance, when every step of it goes through: the name and
  the id of the instance, the ACL rules the provider holds for it, and whether they
  match the expected range; otherwise the first exception, in the order of the code.
\<close>

datatype instance_check =
  Checked (chk_name: json) (chk_id: json) (chk_acl: json) (chk_correct: bool)

definition check_of :: "world \<Rightarrow> string \<Rightarrow> json \<Rightarrow> json \<Rightarrow> json \<Rightarrow> error + instance_check" where
  "check_of w token project_id expected db =
     (case py_getitem db ''id'' of
        Inl e \<Rightarrow> Inl e
      | Inr i \<Rightarrow>
          (case py_getitem db ''name'' of
             Inl e \<Rightarrow> Inl e
           | Inr n \<Rightarrow>
               (case acls_of w token project_id i of
                  Inl e \<Rightarrow> Inl e
                | Inr acl \<Rightarrow>
                    (case acl_is_correct acl expected of
                       Inl e \<Rightarrow> Inl e
                     | Inr c \<Rightarrow> Inr (Checked n i acl c)))))"

fun checks_of ::
  "world \<Rightarrow> string \<Rightarrow> json \<Rightarrow> json \<Rightarrow> json list \<Rightarrow> error + instance_check list" where
  "checks_of w token project_id expected [] = Inr []"
| "checks_of w token project_id expected (db # dbs) =
     (case check_of w token project_id expected db of
        Inl e \<Rightarrow> Inl e
      | Inr c \<Rightarrow>
          (case checks_of w token project_id expected dbs of
             Inl e \<Rightarrow> Inl e
           | Inr cs \<Rightarrow> Inr (c # cs)))"

text \<open>The log record and the request that belong to one checked instance.\<close>

definition verdict_record :: "json \<Rightarrow> instance_check \<Rightarrow> level \<times> message" where
  "verdict_record expected c =
     (if chk_correct c then (INFO, AclCorrect (chk_name c) (chk_id c))
      else (ERROR, AclCheckFailed (chk_name c) (chk_id c) expected (chk_acl c)))"

definition acl_request :: "string \<Rightarrow> json \<Rightarrow> instance_check \<Rightarrow> request" where
  "acl_request token project_id c = \<lparr>endpoint = Instance project_id (chk_id c), bearer = token\<rparr>"

text \<open>The verdict on a project: the conjunction of the verdicts on its instances.\<close>

definition project_verdict :: "world \<Rightarrow> string \<Rightarrow> json \<Rightarrow> json \<Rightarrow> error + bool" where
  "project_verdict w token project_id expected =
     (case databases_of w token project_id of
        Inl e \<Rightarrow> Inl e
      | Inr databases \<Rightarrow>
          (case py_iter databases of
             Inl e \<Rightarrow> Inl e
           | Inr dbs \<Rightarrow>
               (case checks_of w token project_id expected dbs of
                  Inl e \<Rightarrow> Inl e
                | Inr cs \<Rightarrow> Inr (list_all chk_correct cs))))"

text \<open>
  One checked instance, said from the data: the instance has the id and the name, the
  provider holds the ACL rules for that id, and the comparison with the expected range
  gives the verdict.
\<close>

definition checked_as ::
  "world \<Rightarrow> string \<Rightarrow> json \<Rightarrow> json \<Rightarrow> json \<Rightarrow> instance_check \<Rightarrow> bool" where
  "checked_as w token project_id expected db c =
     (py_getitem db ''id'' = Inr (chk_id c)
      \<and> py_getitem db ''name'' = Inr (chk_name c)
      \<and> acls_of w token project_id (chk_id c) = Inr (chk_acl c)
      \<and> acl_is_correct (chk_acl c) expected = Inr (chk_correct c))"

section \<open>The scenarios of the test suite\<close>

text \<open>
  Two projects: \<^verbatim>\<open>project_id_1\<close>, named \<^verbatim>\<open>project_name_1 PROD\<close>, with two database
  instances that both have the ACL \<open>prod_db_acl\<close>; and \<^verbatim>\<open>project_id_2\<close>, named
  \<^verbatim>\<open>project_name_2 NON-PROD\<close>, with one instance that has the ACL \<open>non_prod_db_acl\<close>,
  or with no instance when that is \<open>None\<close>. The production cluster reports the
  egress range \<^verbatim>\<open>1.1.1.1/32\<close>, the non-production cluster \<^verbatim>\<open>2.2.2.2/32\<close>.
\<close>

definition ok_response :: "json \<Rightarrow> response option" where
  "ok_response v = Some \<lparr>status_code = 200, json_body = Some v\<rparr>"

definition db_item :: "string \<Rightarrow> string \<Rightarrow> json" where
  "db_item n i = JObj [(''name'', JStr n), (''id'', JStr i)]"

fun scenario_answers :: "string list \<Rightarrow> string list option \<Rightarrow> endpoint \<Rightarrow> response option" where
  "scenario_answers prod_db_acl non_prod_db_acl (Cluster p n) =
     (if n = ''production''
      then ok_response
             (JObj [(''status'', JObj [(''egressAddressRanges'', str_list [''1.1.1.1/32''])])])
      else ok_response
             (JObj [(''status'', JObj [(''egressAddressRanges'', str_list [''2.2.2.2/32''])])]))"
| "scenario_answers prod_db_acl non_prod_db_acl (Projects org) =
     ok_response (JObj [(''items'', JArr
       [JObj [(''projectId'', JStr ''project_id_1''), (''name'', JStr ''project_name_1 PROD'')],
        JObj [(''projectId'', JStr ''project_id_2''), (''name'', JStr ''project_name_2 NON-PROD'')]])])"
| "scenario_answers prod_db_acl non_prod_db_acl (Project p) =
     (if p = ''project_id_1'' then ok_response (JObj [(''name'', JStr ''project_name_1 PROD'')])
      else ok_response (JObj [(''name'', JStr ''project_name_2 NON-PROD'')]))"
| "scenario_answers prod_db_acl non_prod_db_acl (Instances p) =
     (if p = JStr ''project_id_1''
      then ok_response (JObj [(''items'', JArr
             [db_item ''p_1_db_1_name'' ''p_1_db_1_id'', db_item ''p_1_db_2_name'' ''p_1_db_2_id''])])
      else ok_response (JObj [(''items'', JArr
             (case non_prod_db_acl of
                None \<Rightarrow> []
              | Some a \<Rightarrow> [db_item ''p_2_db_1_name'' ''p_2_db_1_id'']))]))"
| "scenario_answers prod_db_acl non_prod_db_acl (Instance p i) =
     (if p = JStr ''project_id_1''
      then ok_response (JObj [(''item'', JObj [(''acl'', JObj [(''items'', str_list prod_db_acl)])])])
      else (case non_prod_db_acl of
              None \<Rightarrow> None
            | Some a \<Rightarrow>
                ok_response (JObj [(''item'', JObj [(''acl'', JObj [(''items'', str_list a)])])])))"

definition scenario :: "string list \<Rightarrow> string list option \<Rightarrow> world" where
  "scenario prod_db_acl non_prod_db_acl =
     \<lparr>stackit_cli = (\<lambda>k. Some \<lparr>returncode = 0, stdout = ''token'' @ [CHR 0x0A]\<rparr>),
      httpx_get = (\<lambda>r. scenario_answers prod_db_acl non_prod_db_acl (endpoint r)),
      env_StackITSettings = default_StackITSettings,
      env_OrgSettings = default_OrgSettings,
      unicode_upper = upper_0149,
      unicode_space = space_00A0\<rparr>"

definition key_file :: string where
  "key_file = ''../stackit-credentials.json''"

text \<open>
  The egress range the provider reports for a cluster, and the projects it lists for an
  organization, read with a token.
\<close>

definition egress_of :: "world \<Rightarrow> string \<Rightarrow> string \<Rightarrow> string \<Rightarrow> error + json" where
  "egress_of w token project_id cluster_name =
     (case answer w token (Cluster project_id cluster_name) of
        Inl e \<Rightarrow> Inl e
      | Inr cluster_data \<Rightarrow>
          (case py_getitem cluster_data ''status'' of
             Inl e \<Rightarrow> Inl e
           | Inr status \<Rightarrow>
               (case py_getitem status ''egressAddressRanges'' of
                  Inl e \<Rightarrow> Inl e
                | Inr v \<Rightarrow> if py_truthy v then Inr v else Inl EgressRangeNotFound)))"

definition org_projects_of :: "world \<Rightarrow> string \<Rightarrow> string \<Rightarrow> error + (json \<times> json) list" where
  "org_projects_of w token organization_id =
     (case answer w token (Projects organization_id) of
        Inl e \<Rightarrow> Inl e
      | Inr body \<Rightarrow>
          (case py_getitem body ''items'' of
             Inl e \<Rightarrow> Inl e
           | Inr projects \<Rightarrow>
               (case py_iter projects of Inl e \<Rightarrow> Inl e | Inr ps \<Rightarrow> project_pairs ps)))"

text \<open>An item that is a JSON object, and a field of it, \<^verbatim>\<open>None\<close> when it is missing.\<close>

fun is_object :: "json \<Rightarrow> bool" where
  "is_object (JObj kvs) = True"
| "is_object _ = False"

fun field_or_none :: "json \<Rightarrow> string \<Rightarrow> json" where
  "field_or_none (JObj kvs) k = (case map_of kvs k of None \<Rightarrow> JNull | Some v \<Rightarrow> v)"
| "field_or_none _ k = JNull"

text \<open>A provider that answers every request with status 200 and the same body.\<close>

definition canned :: "json \<Rightarrow> world" where
  "canned body =
     \<lparr>stackit_cli = (\<lambda>k. Some \<lparr>returncode = 0, stdout = ''token'' @ [CHR 0x0A]\<rparr>),
      httpx_get = (\<lambda>r. ok_response body),
      env_StackITSettings = default_StackITSettings,
      env_OrgSettings = default_OrgSettings,
      unicode_upper = upper_0149,
      unicode_space = space_00A0\<rparr>"

text \<open>
  A mismatch, said from the data the provider holds: an instance of the project whose
  ACL rules and the expected range are both sets and differ; a project with such an
  instance in its listing; and, among the projects a run processes, a project with a
  mismatch against the range that its name selects.
\<close>

definition instance_mismatch :: "world \<Rightarrow> string \<Rightarrow> json \<Rightarrow> json \<Rightarrow> json \<Rightarrow> bool" where
  "instance_mismatch w token project_id expected db =
     (case py_getitem db ''id'' of
        Inl e \<Rightarrow> False
      | Inr i \<Rightarrow>
          (case acls_of w token project_id i of
             Inl e \<Rightarrow> False
           | Inr acl \<Rightarrow> acl_is_correct acl expected = Inr False))"

definition project_mismatch :: "world \<Rightarrow> string \<Rightarrow> json \<Rightarrow> json \<Rightarrow> bool" where
  "project_mismatch w token expected project_id =
     (case databases_of w token project_id of
        Inl e \<Rightarrow> False
      | Inr databases \<Rightarrow>
          (case py_iter databases of
             Inl e \<Rightarrow> False
           | Inr dbs \<Rightarrow> list_ex (instance_mismatch w token project_id expected) dbs))"

definition expected_range :: "world \<Rightarrow> json \<Rightarrow> json \<Rightarrow> json \<Rightarrow> json" where
  "expected_range w project_name prod_range non_prod_range =
     (case project_name of
        JStr n \<Rightarrow>
          if py_in ''NON-PROD'' (upper (unicode_upper w) n) then non_prod_range else prod_range
      | _ \<Rightarrow> prod_range)"

definition some_mismatch :: "world \<Rightarrow> string \<Rightarrow> json \<Rightarrow> json \<Rightarrow> (json \<times> json) list \<Rightarrow> bool" where
  "some_mismatch w token prod_range non_prod_range projects =
     list_ex (\<lambda>p. project_mismatch w token
                    (expected_range w (snd p) prod_range non_prod_range) (fst p)) projects"

text \<open>The projects of an explicit run: each given id with the name the provider holds.\<close>

fun project_details_of :: "world \<Rightarrow> string \<Rightarrow> string list \<Rightarrow> error + (json \<times> json) list" where
  "project_details_of w token [] = Inr []"
| "project_details_of w token (project_id # project_ids) =
     (case project_name_of w token project_id of
        Inl e \<Rightarrow> Inl e
      | Inr n \<Rightarrow>
          (case project_details_of w token project_ids of
             Inl e \<Rightarrow> Inl e
           | Inr ps \<Rightarrow> Inr ((JStr project_id, n) # ps)))"

text \<open>
  The verdict on the projects of a run, in the order of the run: the conjunction of the
  verdicts on the projects, each against the range its name selects, or the first
  exception.
\<close>

fun projects_verdict ::
  "world \<Rightarrow> string \<Rightarrow> json \<Rightarrow> json \<Rightarrow> (json \<times> json) list \<Rightarrow> error + bool" where
  "projects_verdict w token prod_range non_prod_range [] = Inr True"
| "projects_verdict w token prod_range non_prod_range (p # ps) =
     (case py_upper (unicode_upper w) (snd p) of
        Inl e \<Rightarrow> Inl e
      | Inr u \<Rightarrow>
          (case project_verdict w token (fst p)
                  (expected_range w (snd p) prod_range non_prod_range) of
             Inl e \<Rightarrow> Inl e
           | Inr ok \<Rightarrow>
               (case projects_verdict w token prod_range non_prod_range ps of
                  Inl e \<Rightarrow> Inl e
                | Inr oks \<Rightarrow> Inr (ok \<and> oks))))"

text \<open>How a command ends on a verdict.\<close>

definition outcome :: "error + bool \<Rightarrow> error + unit" where
  "outcome v = (case v of Inl e \<Rightarrow> Inl e | Inr ok \<Rightarrow> if ok then Inr () else Inl acl_mismatch)"

text \<open>
  A project with no database instance, and one with at least one, as the provider lists
  them; a name that is a string.
\<close>

definition has_no_databases :: "world \<Rightarrow> string \<Rightarrow> json \<Rightarrow> bool" where
  "has_no_databases w token project_id =
     (case databases_of w token project_id of
        Inl e \<Rightarrow> False
      | Inr databases \<Rightarrow> py_iter databases = Inr [])"

definition has_instances :: "world \<Rightarrow> string \<Rightarrow> json \<Rightarrow> bool" where
  "has_instances w token project_id =
     (case databases_of w token project_id of
        Inl e \<Rightarrow> False
      | Inr databases \<Rightarrow>
          (case py_iter databases of Inl e \<Rightarrow> False | Inr dbs \<Rightarrow> dbs \<noteq> []))"

fun is_str :: "json \<Rightarrow> bool" where
  "is_str (JStr s) = True"
| "is_str _ = False"

section \<open>Calls for the token\<close>

text \<open>
  A caller that asks for the token of one key path after another within one process,
  and goes on whatever a call returns or raises: the results in order, and the state
  reached.
\<close>

fun token_calls :: "world \<Rightarrow> string list \<Rightarrow> state \<Rightarrow> (error + string) list \<times> state" where
  "token_calls w [] s = ([], s)"
| "token_calls w (k # ks) s =
     (case get_bearer_token w k s of
        (r, s1) \<Rightarrow> (case token_calls w ks s1 of (rs, s') \<Rightarrow> (r # rs, s')))"

text \<open>The token the command line tool gives for a key path, when it succeeds.\<close>

definition cli_token :: "world \<Rightarrow> string \<Rightarrow> string option" where
  "cli_token w k =
     (case stackit_cli w k of
        None \<Rightarrow> None
      | Some r \<Rightarrow>
          if returncode r = 0 then Some (strip (unicode_space w) (stdout r)) else None)"

text \<open>The key paths of a sequence at their first use, given those seen before.\<close>

fun first_uses :: "string list \<Rightarrow> string list \<Rightarrow> string list" where
  "first_uses seen [] = []"
| "first_uses seen (k # ks) =
     (if k \<in> set seen then first_uses seen ks else k # first_uses (k # seen) ks)"

text \<open>129 different key paths: one more than the cache holds.\<close>

definition key_path_no :: "nat \<Rightarrow> string" where
  "key_path_no n = ''key'' @ replicate n CHR ''x''"

definition many_key_paths :: "string list" where
  "many_key_paths = map key_path_no [0..<129]"

text \<open>A command line tool that starts and ends with return code 1.\<close>

definition failing_tool :: world where
  "failing_tool = (canned JNull)\<lparr>stackit_cli := (\<lambda>k. Some \<lparr>returncode = 1, stdout = []\<rparr>)\<rparr>"

text \<open>An environment that sets the two variables the help texts name.\<close>

definition ranges_env :: "string \<Rightarrow> string list option" where
  "ranges_env v =
     (if v = ''PROD_EGRESS_RANGE'' then Some [''1.1.1.1/32'']
      else if v = ''NON_PROD_EGRESS_RANGE'' then Some [''2.2.2.2/32'']
      else None)"

section \<open>The project classifier selects by the marker\<close>

lemmas monad_defs = bind_m_def bind_e_def return_def raise_def

subsection \<open>Upper case and letters of the marker\<close>

lemma of_char_upper_char:
  "(of_char (upper_char c) :: nat) =
     (if 97 \<le> (of_char c :: nat) \<and> (of_char c :: nat) \<le> 122 then of_char c - 32 else of_char c)"
  by (auto simp: upper_char_def Let_def)

lemma char_eq_nat: "c = d \<longleftrightarrow> (of_char c :: nat) = of_char d"
  by simp

lemma upper_char_capital:
  assumes "65 \<le> (of_char d :: nat)" and "(of_char d :: nat) \<le> 90"
  shows "upper_char c = d \<longleftrightarrow> c = d \<or> (of_char c :: nat) = of_char d + 32"
  using assms of_char_upper_char[of c]
  unfolding char_eq_nat[of "upper_char c"] char_eq_nat[of c]
  by auto

lemma upper_char_no_letter:
  assumes "(of_char d :: nat) < 65 \<or> (90 < (of_char d :: nat) \<and> (of_char d :: nat) < 97) \<or> 122 < (of_char d :: nat)"
  shows "upper_char c = d \<longleftrightarrow> c = d"
  using assms of_char_upper_char[of c]
  unfolding char_eq_nat[of "upper_char c"] char_eq_nat[of c]
  by auto

lemma same_letter_N: "same_letter c CHR ''N'' \<longleftrightarrow> upper_char c = CHR ''N''"
  using char_eq_nat[of c "CHR ''n''"]
  by (simp add: same_letter_def lowercase_def uppercase_def upper_char_capital)

lemma same_letter_O: "same_letter c CHR ''O'' \<longleftrightarrow> upper_char c = CHR ''O''"
  using char_eq_nat[of c "CHR ''o''"]
  by (simp add: same_letter_def lowercase_def uppercase_def upper_char_capital)

lemma same_letter_P: "same_letter c CHR ''P'' \<longleftrightarrow> upper_char c = CHR ''P''"
  using char_eq_nat[of c "CHR ''p''"]
  by (simp add: same_letter_def lowercase_def uppercase_def upper_char_capital)

lemma same_letter_R: "same_letter c CHR ''R'' \<longleftrightarrow> upper_char c = CHR ''R''"
  using char_eq_nat[of c "CHR ''r''"]
  by (simp add: same_letter_def lowercase_def uppercase_def upper_char_capital)

lemma same_letter_D: "same_letter c CHR ''D'' \<longleftrightarrow> upper_char c = CHR ''D''"
  using char_eq_nat[of c "CHR ''d''"]
  by (simp add: same_letter_def lowercase_def uppercase_def upper_char_capital)

lemma same_letter_hyphen: "same_letter c CHR ''-'' \<longleftrightarrow> upper_char c = CHR ''-''"
  by (simp add: same_letter_def lowercase_def uppercase_def upper_char_no_letter)

lemma in_marker:
  "d \<in> set ''NON-PROD'' \<longleftrightarrow>
     d = CHR ''N'' \<or> d = CHR ''O'' \<or> d = CHR ''-'' \<or> d = CHR ''P'' \<or> d = CHR ''R'' \<or> d = CHR ''D''"
  by auto

lemma same_letter_marker:
  assumes "d \<in> set ''NON-PROD''"
  shows "same_letter c d \<longleftrightarrow> upper_char c = d"
  using assms unfolding in_marker
  by (elim disjE)
     (simp_all only: same_letter_N same_letter_O same_letter_P same_letter_R same_letter_D
        same_letter_hyphen)

lemma marker_is_ascii: "d \<in> set ''NON-PROD'' \<Longrightarrow> is_ascii d"
  unfolding in_marker by (elim disjE) (simp_all add: is_ascii_def)

lemma upper_char_not_ascii: "\<not> is_ascii c \<Longrightarrow> upper_char c = c"
  by (simp add: upper_char_def is_ascii_def Let_def)

lemma not_ascii_no_marker_letter:
  assumes "\<not> is_ascii b" and "d \<in> set ''NON-PROD''"
  shows "\<not> same_letter b d"
  using assms marker_is_ascii[OF assms(2)]
  by (auto simp: same_letter_marker upper_char_not_ascii)

subsection \<open>The characters of a string\<close>

lemma concat_utf8_chars: "concat (utf8_chars s) = s"
  by (induction s rule: utf8_chars.induct) simp_all

lemma utf8_chars_ascii: "list_all is_ascii s \<Longrightarrow> utf8_chars s = map (\<lambda>c. [c]) s"
  by (induction s) simp_all

lemma is_continuation_not_ascii: "is_continuation b \<Longrightarrow> \<not> is_ascii b"
  by (simp add: is_continuation_def is_ascii_def)

lemma utf8_chars_kinds:
  "list_all (\<lambda>u. is_ascii_char u \<or> (u \<noteq> [] \<and> list_all (\<lambda>b. \<not> is_ascii b) u)) (utf8_chars s)"
proof (induction s rule: utf8_chars.induct)
  case 1
  then show ?case by simp
next
  case (2 c cs)
  have "list_all (\<lambda>b. \<not> is_ascii b) (takeWhile is_continuation cs)"
    unfolding list_all_iff using is_continuation_not_ascii by (auto dest: set_takeWhileD)
  with 2 show ?case by (simp add: is_ascii_char_def)
qed

lemma letterwise_ascii: "list_all is_ascii s \<Longrightarrow> letterwise table s"
  by (simp add: letterwise_def utf8_chars_ascii list_all_iff is_ascii_char_def)

lemma upper_ascii: "list_all is_ascii s \<Longrightarrow> upper table s = map upper_char s"
  by (induction s) (simp_all add: upper_def upper_of_def)

subsection \<open>Occurrences, position by position\<close>

lemma list_ex_upt: "list_ex P [0..<Suc n] \<longleftrightarrow> (\<exists>i\<le>n. P i)"
  by (auto simp: list_ex_iff less_Suc_eq_le simp del: upt_Suc)

lemma ex_position_Cons:
  "(\<exists>i\<le>length (x # xs). P (drop i (x # xs))) \<longleftrightarrow> P (x # xs) \<or> (\<exists>i\<le>length xs. P (drop i xs))"
  (is "?L \<longleftrightarrow> ?R")
proof
  assume ?L
  then obtain i where i: "i \<le> length (x # xs)" "P (drop i (x # xs))" by blast
  show ?R
  proof (cases i)
    case 0
    with i show ?thesis by simp
  next
    case (Suc j)
    with i show ?thesis by auto
  qed
next
  assume ?R
  then show ?L
  proof
    assume "P (x # xs)"
    then have "P (drop 0 (x # xs))" by simp
    then show ?L by blast
  next
    assume "\<exists>i\<le>length xs. P (drop i xs)"
    then obtain i where "i \<le> length xs" "P (drop i xs)" by blast
    then have "Suc i \<le> length (x # xs) \<and> P (drop (Suc i) (x # xs))" by simp
    then show ?L by blast
  qed
qed

lemma occurs_any_case_Nil: "occurs_any_case m [] \<longleftrightarrow> m = []"
  by (simp add: occurs_any_case_def)

lemma occurs_any_case_Cons:
  "occurs_any_case m (c # cs) \<longleftrightarrow>
     list_all2 same_letter (take (length m) (c # cs)) m \<or> occurs_any_case m cs"
  unfolding occurs_any_case_def list_ex_upt
  using ex_position_Cons[of c cs "\<lambda>xs. list_all2 same_letter (take (length m) xs) m"] .

lemma py_in_skip:
  assumes "m \<noteq> []" and "\<forall>p\<in>set pre. p \<noteq> hd m"
  shows "py_in m (pre @ xs) = py_in m xs"
  using assms(2)
proof (induction pre)
  case Nil
  then show ?case by simp
next
  case (Cons p pre)
  obtain d m' where m: "m = d # m'" using assms(1) by (cases m) auto
  have "take (length m) (p # pre @ xs) \<noteq> m"
    using Cons.prems by (auto simp: m)
  with Cons show ?case by simp
qed

lemma occurs_any_case_skip:
  assumes "m \<noteq> []" and "\<forall>p\<in>set pre. \<not> same_letter p (hd m)"
  shows "occurs_any_case m (pre @ xs) = occurs_any_case m xs"
  using assms(2)
proof (induction pre)
  case Nil
  then show ?case by simp
next
  case (Cons p pre)
  obtain d m' where m: "m = d # m'" using assms(1) by (cases m) auto
  have "\<not> list_all2 same_letter (take (length m) (p # pre @ xs)) m"
    using Cons.prems by (auto simp: m)
  with Cons show ?case by (simp add: occurs_any_case_Cons)
qed

subsection \<open>The marker in a name and in its upper-case form\<close>

lemma window:
  assumes "list_all (\<lambda>u. is_ascii_char u
              \<or> (u \<noteq> [] \<and> list_all (\<lambda>b. \<not> is_ascii b) u \<and> no_marker_letter table u)) us"
    and "set m \<subseteq> set ''NON-PROD''"
  shows "take (length m) (concat (map (upper_of table) us)) = m
       \<longleftrightarrow> list_all2 same_letter (take (length m) (concat us)) m"
  using assms
proof (induction us arbitrary: m)
  case Nil
  then show ?case by auto
next
  case (Cons u us)
  show ?case
  proof (cases m)
    case Nil
    then show ?thesis by simp
  next
    case m: (Cons d m')
    have d: "d \<in> set ''NON-PROD''" and m': "set m' \<subseteq> set ''NON-PROD''"
      using Cons.prems(2) unfolding m by simp_all
    have rest: "list_all (\<lambda>u. is_ascii_char u
              \<or> (u \<noteq> [] \<and> list_all (\<lambda>b. \<not> is_ascii b) u \<and> no_marker_letter table u)) us"
      using Cons.prems(1) by simp
    note ih = Cons.IH[OF rest m']
    show ?thesis
    proof (cases "is_ascii_char u")
      case True
      then obtain c where u: "u = [c]" and c: "is_ascii c"
        by (auto simp: is_ascii_char_def split: list.splits)
      show ?thesis
        using ih c by (simp add: m u upper_of_def same_letter_marker[OF d])
    next
      case False
      with Cons.prems(1) have
        u: "u \<noteq> []" "list_all (\<lambda>b. \<not> is_ascii b) u" "no_marker_letter table u"
        by simp_all
      obtain b bs where ub: "u = b # bs" using u(1) by (cases u) auto
      have b: "\<not> same_letter b d"
        using u(2) d by (simp add: ub not_ascii_no_marker_letter)
      have up: "upper_of table u = table u"
        using False by (auto simp: upper_of_def is_ascii_char_def split: list.splits)
      obtain y ys where y: "table u = y # ys" "y \<notin> set ''NON-PROD''"
        using u(3) unfolding no_marker_letter_def by (cases "table u") auto
      have "y \<noteq> d" using y(2) d by auto
      then have "take (length m) (concat (map (upper_of table) (u # us))) \<noteq> m"
        by (simp add: m up y(1))
      moreover have "\<not> list_all2 same_letter (take (length m) (concat (u # us))) m"
        using b by (simp add: m ub)
      ultimately show ?thesis by simp
    qed
  qed
qed

lemma marker_in_upper_of_units:
  assumes "list_all (\<lambda>u. is_ascii_char u
              \<or> (u \<noteq> [] \<and> list_all (\<lambda>b. \<not> is_ascii b) u \<and> no_marker_letter table u)) us"
  shows "py_in ''NON-PROD'' (concat (map (upper_of table) us))
       \<longleftrightarrow> occurs_any_case ''NON-PROD'' (concat us)"
  using assms
proof (induction us)
  case Nil
  then show ?case by (simp add: occurs_any_case_Nil)
next
  case (Cons u us)
  have rest: "list_all (\<lambda>u. is_ascii_char u
              \<or> (u \<noteq> [] \<and> list_all (\<lambda>b. \<not> is_ascii b) u \<and> no_marker_letter table u)) us"
    using Cons.prems by simp
  note ih = Cons.IH[OF rest]
  show ?case
  proof (cases "is_ascii_char u")
    case True
    then obtain c where u: "u = [c]" and c: "is_ascii c"
      by (auto simp: is_ascii_char_def split: list.splits)
    have X: "concat (map (upper_of table) (u # us))
               = upper_char c # concat (map (upper_of table) us)"
      using c by (simp add: u upper_of_def)
    have S: "concat (u # us) = c # concat us"
      by (simp add: u)
    have w: "take (length ''NON-PROD'') (concat (map (upper_of table) (u # us))) = ''NON-PROD''
        \<longleftrightarrow> list_all2 same_letter (take (length ''NON-PROD'') (concat (u # us))) ''NON-PROD''"
      by (rule window[OF Cons.prems]) simp
    show ?thesis
      unfolding X S py_in.simps occurs_any_case_Cons
      using w[unfolded X S] ih by blast
  next
    case False
    with Cons.prems have
      u: "u \<noteq> []" "list_all (\<lambda>b. \<not> is_ascii b) u" "no_marker_letter table u"
      by simp_all
    have up: "upper_of table u = table u"
      using False by (auto simp: upper_of_def is_ascii_char_def split: list.splits)
    have "\<forall>p\<in>set (table u). p \<noteq> hd ''NON-PROD''"
      using u(3) unfolding no_marker_letter_def list_all_iff by auto
    then have 1: "py_in ''NON-PROD'' (table u @ concat (map (upper_of table) us))
                = py_in ''NON-PROD'' (concat (map (upper_of table) us))"
      by (intro py_in_skip) simp_all
    have "\<not> same_letter p (hd ''NON-PROD'')" if "p \<in> set u" for p
    proof -
      have "\<not> is_ascii p" using u(2) that unfolding list_all_iff by blast
      moreover have "hd ''NON-PROD'' \<in> set ''NON-PROD''" by simp
      ultimately show ?thesis by (rule not_ascii_no_marker_letter)
    qed
    then have "\<forall>p\<in>set u. \<not> same_letter p (hd ''NON-PROD'')" by blast
    then have 2: "occurs_any_case ''NON-PROD'' (u @ concat us)
                = occurs_any_case ''NON-PROD'' (concat us)"
      by (intro occurs_any_case_skip) simp_all
    show ?thesis using 1 2 ih by (simp add: up)
  qed
qed

lemma py_in_marker:
  assumes "letterwise table s"
  shows "py_in ''NON-PROD'' (upper table s) \<longleftrightarrow> occurs_any_case ''NON-PROD'' s"
proof -
  have "list_all (\<lambda>u. is_ascii_char u
              \<or> (u \<noteq> [] \<and> list_all (\<lambda>b. \<not> is_ascii b) u \<and> no_marker_letter table u))
          (utf8_chars s)"
    using assms utf8_chars_kinds[of s] unfolding letterwise_def list_all_iff by blast
  from marker_in_upper_of_units[OF this] show ?thesis
    by (simp add: upper_def concat_utf8_chars)
qed

lemma upper_char_eval:
  "upper_char c = d \<longleftrightarrow>
     (if 97 \<le> (of_char c :: nat) \<and> (of_char c :: nat) \<le> 122 then of_char c - 32 else of_char c)
       = (of_char d :: nat)"
  unfolding char_eq_nat[of "upper_char c"] of_char_upper_char ..

text \<open>
  C5, as the code has it. For every project name that is a string and in which every
  character outside ASCII has an upper-case form that is not empty and has no character
  of the marker (every name of ASCII characters is one), \<^verbatim>\<open>get_egress_range\<close>
  returns the non-production range exactly when the name contains the marker
  \<^verbatim>\<open>NON-PROD\<close> in any letter case, and the production range for every other name; it
  logs which of the two it chose.
\<close>

theorem get_egress_range_marker:
  assumes "letterwise (unicode_upper w) project_name"
  shows "get_egress_range w (JStr project_name) prod_range non_prod_range s =
     (if occurs_any_case ''NON-PROD'' project_name
      then (Inr non_prod_range, s\<lparr>log := log s @ [(INFO, UsingNonProd (JStr project_name))]\<rparr>)
      else (Inr prod_range, s\<lparr>log := log s @ [(INFO, UsingProd (JStr project_name))]\<rparr>))"
  by (simp add: get_egress_range_def monad_defs logger_info_def py_in_marker[OF assms])

theorem get_egress_range_marker_witness:
  "fst (get_egress_range (canned JNull) (JStr ''team-a-non-prod-2'')
          (str_list [''1.1.1.1/32'']) (str_list [''2.2.2.2/32'']) init_state)
     = Inr (str_list [''2.2.2.2/32''])
   \<and> fst (get_egress_range (canned JNull) (JStr ''project_name_1 PROD'')
          (str_list [''1.1.1.1/32'']) (str_list [''2.2.2.2/32'']) init_state)
     = Inr (str_list [''1.1.1.1/32''])
   \<and> fst (get_egress_range (canned JNull) (JStr euro_non_prod)
          (str_list [''1.1.1.1/32'']) (str_list [''2.2.2.2/32'']) init_state)
     = Inr (str_list [''2.2.2.2/32''])"
proof -
  have t: "unicode_upper (canned JNull) = upper_0149" by (simp add: canned_def)
  have 1: "letterwise (unicode_upper (canned JNull)) ''team-a-non-prod-2''"
    by (rule letterwise_ascii) (simp add: is_ascii_def)
  have 2: "letterwise (unicode_upper (canned JNull)) ''project_name_1 PROD''"
    by (rule letterwise_ascii) (simp add: is_ascii_def)
  have 3: "letterwise (unicode_upper (canned JNull)) euro_non_prod"
    unfolding t
    by (simp add: letterwise_def euro_non_prod_def is_ascii_def is_continuation_def
          is_ascii_char_def no_marker_letter_def upper_0149_def)
  show ?thesis
    using get_egress_range_marker[OF 1, of "str_list [''1.1.1.1/32'']"
            "str_list [''2.2.2.2/32'']" init_state]
          get_egress_range_marker[OF 2, of "str_list [''1.1.1.1/32'']"
            "str_list [''2.2.2.2/32'']" init_state]
          get_egress_range_marker[OF 3, of "str_list [''1.1.1.1/32'']"
            "str_list [''2.2.2.2/32'']" init_state]
    by (simp add: occurs_any_case_def euro_non_prod_def same_letter_def lowercase_def
          uppercase_def)
qed

text \<open>
  The name U+0149 followed by \<^verbatim>\<open>on-prod\<close> does not contain the marker in any letter
  case: its first character is not the letter n. Its upper-case form is U+02BC followed
  by \<^verbatim>\<open>NON-PROD\<close>, so the code selects the non-production range for it.
\<close>

theorem n_apostrophe_counterexample:
  "fst (get_egress_range (canned JNull) (JStr n_apostrophe_on_prod)
          (str_list [''1.1.1.1/32'']) (str_list [''2.2.2.2/32'']) init_state)
     = Inr (str_list [''2.2.2.2/32''])
   \<and> \<not> occurs_any_case ''NON-PROD'' n_apostrophe_on_prod"
proof -
  have chars: "utf8_chars n_apostrophe_on_prod
                 = [[CHR 0xC5, CHR 0x89], ''o'', ''n'', ''-'', ''p'', ''r'', ''o'', ''d'']"
    by (simp add: n_apostrophe_on_prod_def is_ascii_def is_continuation_def)
  have up: "upper (unicode_upper (canned JNull)) n_apostrophe_on_prod
              = [CHR 0xCA, CHR 0xBC] @ ''NON-PROD''"
    by (simp add: canned_def upper_def chars upper_of_def upper_0149_def is_ascii_def
          upper_char_eval)
  have "py_in ''NON-PROD'' (upper (unicode_upper (canned JNull)) n_apostrophe_on_prod)"
    unfolding up by simp
  then have "fst (get_egress_range (canned JNull) (JStr n_apostrophe_on_prod)
          (str_list [''1.1.1.1/32'']) (str_list [''2.2.2.2/32'']) init_state)
     = Inr (str_list [''2.2.2.2/32''])"
    by (simp add: get_egress_range_def monad_defs logger_info_def)
  moreover have "\<not> occurs_any_case ''NON-PROD'' n_apostrophe_on_prod"
    by (simp add: occurs_any_case_def n_apostrophe_on_prod_def same_letter_def lowercase_def
          uppercase_def)
  ultimately show ?thesis by blast
qed

section \<open>The API client reads what the provider holds\<close>

lemma get_bearer_token_ready:
  assumes "token_ready w k t s"
  shows "\<exists>s'. get_bearer_token w k s = (Inr t, s') \<and> token_ready w k t s'
            \<and> log s' = log s \<and> requests s' = requests s"
  using assms
  by (auto simp: token_ready_def get_bearer_token_def lru_cache_def get_bearer_token_wrapped_def
        lru_maxsize_def Let_def split: option.splits if_splits)

lemma api_get_ready:
  assumes "token_ready w (stackit_service_account_key_path config) t s"
  shows "\<exists>s'. api_get w ep config s =
            (case httpx_get w \<lparr>endpoint = ep, bearer = t\<rparr> of
               None \<Rightarrow> Inl TransportError | Some r \<Rightarrow> Inr r, s')
          \<and> token_ready w (stackit_service_account_key_path config) t s'
          \<and> log s' = log s
          \<and> requests s' = requests s @ [\<lparr>endpoint = ep, bearer = t\<rparr>]"
proof -
  from get_bearer_token_ready[OF assms] obtain s1 where
    s1: "get_bearer_token w (stackit_service_account_key_path config) s = (Inr t, s1)"
        "token_ready w (stackit_service_account_key_path config) t s1"
        "log s1 = log s" "requests s1 = requests s"
    by blast
  have "token_ready w (stackit_service_account_key_path config) t
          (s1\<lparr>requests := requests s1 @ [\<lparr>endpoint = ep, bearer = t\<rparr>]\<rparr>)"
    using s1(2)
    by (auto simp: token_ready_def get_bearer_token_def lru_cache_def get_bearer_token_wrapped_def
        lru_maxsize_def Let_def split: option.splits if_splits)
  then show ?thesis
    using s1 by (simp add: api_get_def bind_m_def send_def)
qed

lemma get_databases_in_project_ready:
  assumes "token_ready w (stackit_service_account_key_path config) t s"
  shows "\<exists>s'. get_databases_in_project w project_id config s = (databases_of w t project_id, s')
          \<and> token_ready w (stackit_service_account_key_path config) t s'
          \<and> log s' = log s
          \<and> requests s' = requests s @ [\<lparr>endpoint = Instances project_id, bearer = t\<rparr>]"
proof -
  from api_get_ready[OF assms, of "Instances project_id"] obtain s' where
    s': "api_get w (Instances project_id) config s =
            (case httpx_get w \<lparr>endpoint = Instances project_id, bearer = t\<rparr> of
               None \<Rightarrow> Inl TransportError | Some r \<Rightarrow> Inr r, s')"
        "token_ready w (stackit_service_account_key_path config) t s'"
        "log s' = log s"
        "requests s' = requests s @ [\<lparr>endpoint = Instances project_id, bearer = t\<rparr>]"
    by blast
  have "get_databases_in_project w project_id config s = (databases_of w t project_id, s')"
    using s'(1)
    by (simp add: get_databases_in_project_def databases_of_def answer_def bind_m_def bind_e_def
          return_def raise_def split: option.splits sum.splits)
  with s' show ?thesis by blast
qed

lemma get_acls_ready:
  assumes "token_ready w (stackit_service_account_key_path config) t s"
  shows "\<exists>s'. get_acls w project_id instance_id config s = (acls_of w t project_id instance_id, s')
          \<and> token_ready w (stackit_service_account_key_path config) t s'
          \<and> log s' = log s
          \<and> requests s' = requests s @ [\<lparr>endpoint = Instance project_id instance_id, bearer = t\<rparr>]"
proof -
  from api_get_ready[OF assms, of "Instance project_id instance_id"] obtain s' where
    s': "api_get w (Instance project_id instance_id) config s =
            (case httpx_get w \<lparr>endpoint = Instance project_id instance_id, bearer = t\<rparr> of
               None \<Rightarrow> Inl TransportError | Some r \<Rightarrow> Inr r, s')"
        "token_ready w (stackit_service_account_key_path config) t s'"
        "log s' = log s"
        "requests s' = requests s @ [\<lparr>endpoint = Instance project_id instance_id, bearer = t\<rparr>]"
    by blast
  have "get_acls w project_id instance_id config s = (acls_of w t project_id instance_id, s')"
    using s'(1)
    by (simp add: get_acls_def acls_of_def answer_def bind_m_def bind_e_def
          return_def raise_def split: option.splits sum.splits)
  with s' show ?thesis by blast
qed

section \<open>The loop over the database instances of a project\<close>

lemma token_ready_log_update [simp]:
  "token_ready w k t (s\<lparr>log := l\<rparr>) = token_ready w k t s"
  by (auto simp: token_ready_def get_bearer_token_def lru_cache_def get_bearer_token_wrapped_def
        Let_def split: option.splits if_splits)

lemma check_dbs_run:
  assumes "token_ready w (stackit_service_account_key_path config) t s"
  shows "\<exists>s'. check_dbs w project_id expected config dbs flag s =
            (case checks_of w t project_id expected dbs of
               Inl e \<Rightarrow> Inl e
             | Inr cs \<Rightarrow> Inr (flag \<and> list_all chk_correct cs), s')
          \<and> token_ready w (stackit_service_account_key_path config) t s'
          \<and> (\<forall>cs. checks_of w t project_id expected dbs = Inr cs \<longrightarrow>
                log s' = log s @ map (verdict_record expected) cs
              \<and> requests s' = requests s @ map (acl_request t project_id) cs)"
  using assms
proof (induction dbs arbitrary: flag s)
  case Nil
  then show ?case by (simp add: return_def)
next
  case (Cons db dbs)
  let ?k = "stackit_service_account_key_path config"
  show ?case
  proof (cases "py_getitem db ''id''")
    case (Inl e)
    then show ?thesis using Cons.prems by (simp add: check_of_def monad_defs)
  next
    case i: (Inr i)
    show ?thesis
    proof (cases "py_getitem db ''name''")
      case (Inl e)
      then show ?thesis using i Cons.prems by (simp add: check_of_def monad_defs)
    next
      case n: (Inr n)
      from get_acls_ready[OF Cons.prems, of project_id i] obtain s1 where
        s1: "get_acls w project_id i config s = (acls_of w t project_id i, s1)"
            "token_ready w ?k t s1" "log s1 = log s"
            "requests s1 = requests s @ [\<lparr>endpoint = Instance project_id i, bearer = t\<rparr>]"
        by blast
      show ?thesis
      proof (cases "acls_of w t project_id i")
        case (Inl e)
        then show ?thesis using i n s1 by (simp add: check_of_def monad_defs)
      next
        case acl: (Inr acl)
        show ?thesis
        proof (cases "acl_is_correct acl expected")
          case (Inl e)
          then show ?thesis using i n s1 acl by (simp add: check_of_def monad_defs)
        next
          case c: (Inr c)
          define c' where "c' = Checked n i acl c"
          define s2 where "s2 = s1\<lparr>log := log s1 @ [verdict_record expected c']\<rparr>"
          have ready2: "token_ready w ?k t s2"
            using s1(2) by (simp add: s2_def)
          have step: "check_dbs w project_id expected config (db # dbs) flag s =
                  check_dbs w project_id expected config dbs (flag \<and> c) s2"
            using i n s1 acl c
            by (simp add: monad_defs logger_info_def logger_error_def s2_def c'_def
                  verdict_record_def)
          have chk: "check_of w t project_id expected db = Inr c'"
            using i n acl c by (simp add: check_of_def c'_def)
          from Cons.IH[OF ready2, of "flag \<and> c"] obtain s' where
            s': "check_dbs w project_id expected config dbs (flag \<and> c) s2 =
                   (case checks_of w t project_id expected dbs of
                      Inl e \<Rightarrow> Inl e
                    | Inr cs \<Rightarrow> Inr ((flag \<and> c) \<and> list_all chk_correct cs), s')"
                "token_ready w ?k t s'"
                "\<forall>cs. checks_of w t project_id expected dbs = Inr cs \<longrightarrow>
                   log s' = log s2 @ map (verdict_record expected) cs
                 \<and> requests s' = requests s2 @ map (acl_request t project_id) cs"
            by blast
          have "check_dbs w project_id expected config (db # dbs) flag s =
                  (case checks_of w t project_id expected (db # dbs) of
                     Inl e \<Rightarrow> Inl e
                   | Inr cs \<Rightarrow> Inr (flag \<and> list_all chk_correct cs), s')"
            using step s'(1) chk by (auto simp: c'_def split: sum.splits)
          moreover have "\<forall>cs. checks_of w t project_id expected (db # dbs) = Inr cs \<longrightarrow>
                log s' = log s @ map (verdict_record expected) cs
              \<and> requests s' = requests s @ map (acl_request t project_id) cs"
            using s'(3) chk s1(3,4)
            by (auto simp: s2_def c'_def acl_request_def split: sum.splits)
          ultimately show ?thesis using s'(2) by blast
        qed
      qed
    qed
  qed
qed

section \<open>The check of one project\<close>

lemma check_database_acl_of_project_run:
  assumes "token_ready w (stackit_service_account_key_path config) t s"
  shows "\<exists>s'. check_database_acl_of_project w project_id expected config s =
            (project_verdict w t project_id expected, s')
          \<and> token_ready w (stackit_service_account_key_path config) t s'
          \<and> (\<forall>databases dbs cs.
                databases_of w t project_id = Inr databases \<longrightarrow>
                py_iter databases = Inr dbs \<longrightarrow>
                checks_of w t project_id expected dbs = Inr cs \<longrightarrow>
                  log s' = log s @ (if py_truthy databases then [] else [(INFO, NoDatabases)])
                             @ map (verdict_record expected) cs
                \<and> requests s' = requests s @ \<lparr>endpoint = Instances project_id, bearer = t\<rparr>
                             # map (acl_request t project_id) cs)"
proof -
  let ?k = "stackit_service_account_key_path config"
  from get_databases_in_project_ready[OF assms, of project_id] obtain s1 where
    s1: "get_databases_in_project w project_id config s = (databases_of w t project_id, s1)"
        "token_ready w ?k t s1" "log s1 = log s"
        "requests s1 = requests s @ [\<lparr>endpoint = Instances project_id, bearer = t\<rparr>]"
    by blast
  show ?thesis
  proof (cases "databases_of w t project_id")
    case (Inl e)
    then show ?thesis
      using s1 by (simp add: check_database_acl_of_project_def project_verdict_def monad_defs)
  next
    case d: (Inr databases)
    define s2 where
      "s2 = (if py_truthy databases then s1 else s1\<lparr>log := log s1 @ [(INFO, NoDatabases)]\<rparr>)"
    have ready2: "token_ready w ?k t s2"
      using s1(2) by (simp add: s2_def)
    show ?thesis
    proof (cases "py_iter databases")
      case (Inl e)
      then show ?thesis
        using s1 d ready2
        by (auto simp: check_database_acl_of_project_def project_verdict_def monad_defs
              logger_info_def s2_def)
    next
      case dbs: (Inr dbs)
      from check_dbs_run[OF ready2, of project_id expected dbs True] obtain s' where
        s': "check_dbs w project_id expected config dbs True s2 =
               (case checks_of w t project_id expected dbs of
                  Inl e \<Rightarrow> Inl e
                | Inr cs \<Rightarrow> Inr (True \<and> list_all chk_correct cs), s')"
            "token_ready w ?k t s'"
            "\<forall>cs. checks_of w t project_id expected dbs = Inr cs \<longrightarrow>
                log s' = log s2 @ map (verdict_record expected) cs
              \<and> requests s' = requests s2 @ map (acl_request t project_id) cs"
        by blast
      have "check_database_acl_of_project w project_id expected config s =
              check_dbs w project_id expected config dbs True s2"
        using s1(1) d dbs
        by (simp add: check_database_acl_of_project_def monad_defs logger_info_def s2_def)
      then have "check_database_acl_of_project w project_id expected config s =
              (project_verdict w t project_id expected, s')"
        using s'(1) d dbs by (simp add: project_verdict_def split: sum.splits)
      moreover have "log s2 = log s @ (if py_truthy databases then [] else [(INFO, NoDatabases)])"
        and "requests s2 = requests s @ [\<lparr>endpoint = Instances project_id, bearer = t\<rparr>]"
        using s1(3,4) by (simp_all add: s2_def)
      ultimately show ?thesis
        using s'(2,3) d dbs by auto
    qed
  qed
qed

lemma py_hash_all_strs: "py_hash_all (map JStr xs) = Inr (map AStr xs)"
  by (induction xs) simp_all

lemma py_set_str_list: "py_set (str_list xs) = Inr (AStr ` set xs)"
  by (simp add: py_set_def str_list_def py_hash_all_strs)

lemma acl_is_correct_str_lists:
  "acl_is_correct (str_list A) (str_list E) = Inr (set A = set E)"
  by (auto simp: acl_is_correct_def py_set_str_list inj_image_eq_iff inj_on_def)

section \<open>Verdicts on instances and on projects\<close>

lemma checks_of_iff: "checks_of w t project_id expected dbs = Inr cs
   \<longleftrightarrow> list_all2 (checked_as w t project_id expected) dbs cs"
proof (induction dbs arbitrary: cs)
  case Nil
  then show ?case by auto
next
  case (Cons db dbs)
  have one: "\<And>c. check_of w t project_id expected db = Inr c
                 \<longleftrightarrow> checked_as w t project_id expected db c"
    by (auto simp: check_of_def checked_as_def split: sum.splits)
  show ?case
  proof (cases cs)
    case Nil
    then show ?thesis by (auto split: sum.splits)
  next
    case (Cons c cs')
    have "checks_of w t project_id expected (db # dbs) = Inr (c # cs')
        \<longleftrightarrow> check_of w t project_id expected db = Inr c
          \<and> checks_of w t project_id expected dbs = Inr cs'"
      by (auto split: sum.splits)
    then show ?thesis
      unfolding Cons one Cons.IH by simp
  qed
qed

lemma scenario_token_ready:
  "token_ready (scenario a b) key_file ''token'' init_state"
  by (simp add: token_ready_def get_bearer_token_def lru_cache_def init_state_def
        get_bearer_token_wrapped_def scenario_def strip_def is_space_of_def is_space_def
        is_ascii_def Let_def)

lemma default_key_path [simp]:
  "stackit_service_account_key_path default_StackITSettings = key_file"
  "stackit_service_account_key_path default_OrgSettings = key_file"
  by (simp_all add: default_StackITSettings_def default_OrgSettings_def key_file_def)


lemma utf8_chars_eq_Nil [simp]: "utf8_chars s = [] \<longleftrightarrow> s = []"
  by (cases s) auto

lemma py_iter_empty_falsy: "py_iter databases = Inr [] \<Longrightarrow> \<not> py_truthy databases"
  by (cases databases) auto

text \<open>
  C3. For every project whose listing of database instances is empty,
  \<^verbatim>\<open>check_database_acl_of_project\<close> returns true, adds the one informational record
  ``no databases'' to the log, and sends the listing request and nothing after it (no
  ACL lookup).
\<close>

theorem no_databases_vacuous_pass:
  assumes "token_ready w (stackit_service_account_key_path config) t s"
    and "databases_of w t project_id = Inr databases"
    and "py_iter databases = Inr []"
  shows "fst (check_database_acl_of_project w project_id expected config s) = Inr True
       \<and> log (snd (check_database_acl_of_project w project_id expected config s))
           = log s @ [(INFO, NoDatabases)]
       \<and> requests (snd (check_database_acl_of_project w project_id expected config s))
           = requests s @ [\<lparr>endpoint = Instances project_id, bearer = t\<rparr>]"
proof -
  from check_database_acl_of_project_run[OF assms(1), of project_id expected] obtain s' where
    s': "check_database_acl_of_project w project_id expected config s =
            (project_verdict w t project_id expected, s')"
        "\<forall>databases dbs cs.
                databases_of w t project_id = Inr databases \<longrightarrow>
                py_iter databases = Inr dbs \<longrightarrow>
                checks_of w t project_id expected dbs = Inr cs \<longrightarrow>
                  log s' = log s @ (if py_truthy databases then [] else [(INFO, NoDatabases)])
                             @ map (verdict_record expected) cs
                \<and> requests s' = requests s @ \<lparr>endpoint = Instances project_id, bearer = t\<rparr>
                             # map (acl_request t project_id) cs"
    by blast
  have "checks_of w t project_id expected [] = Inr []" by simp
  with s'(2) assms(2,3) have
    "log s' = log s @ (if py_truthy databases then [] else [(INFO, NoDatabases)])
                             @ map (verdict_record expected) []
     \<and> requests s' = requests s @ \<lparr>endpoint = Instances project_id, bearer = t\<rparr>
                             # map (acl_request t project_id) []"
    by blast
  moreover have "project_verdict w t project_id expected = Inr True"
    using assms(2,3) by (simp add: project_verdict_def)
  ultimately show ?thesis
    using s'(1) py_iter_empty_falsy[OF assms(3)] by simp
qed

theorem no_databases_vacuous_pass_witness:
  "fst (check_database_acl_of_project (scenario [''1.1.1.1/32''] None) (JStr ''project_id_2'')
          (str_list [''2.2.2.2/32'']) default_StackITSettings init_state) = Inr True
   \<and> log (snd (check_database_acl_of_project (scenario [''1.1.1.1/32''] None)
          (JStr ''project_id_2'') (str_list [''2.2.2.2/32'']) default_StackITSettings init_state))
       = [(INFO, NoDatabases)]
   \<and> requests (snd (check_database_acl_of_project (scenario [''1.1.1.1/32''] None)
          (JStr ''project_id_2'') (str_list [''2.2.2.2/32'']) default_StackITSettings init_state))
       = [\<lparr>endpoint = Instances (JStr ''project_id_2''), bearer = ''token''\<rparr>]"
proof -
  have ready: "token_ready (scenario [''1.1.1.1/32''] None)
                 (stackit_service_account_key_path default_StackITSettings) ''token'' init_state"
    using scenario_token_ready by simp
  have dbs: "databases_of (scenario [''1.1.1.1/32''] None) ''token'' (JStr ''project_id_2'')
               = Inr (JArr [])"
    by (simp add: databases_of_def answer_def scenario_def ok_response_def raise_for_status_def
          response_json_def)
  have it: "py_iter (JArr []) = Inr []" by simp
  show ?thesis
    using no_databases_vacuous_pass[OF ready dbs it, of "str_list [''2.2.2.2/32'']"]
    by (simp add: init_state_def)
qed

text \<open>
  C4. For every non-empty listing of database instances in which the check of each
  instance goes through (\<open>cs\<close> gives, instance by instance, the name, the id, the ACL
  rules the provider holds and the verdict), \<^verbatim>\<open>check_database_acl_of_project\<close>
  sends the ACL request of every listed instance, in order, whatever the verdicts of
  the earlier ones; it logs one record per instance, an error record with the expected
  and the found rules for each mismatch; and it returns the conjunction of all verdicts.
\<close>

theorem every_instance_is_checked:
  assumes "token_ready w (stackit_service_account_key_path config) t s"
    and "databases_of w t project_id = Inr databases"
    and "py_iter databases = Inr dbs"
    and "dbs \<noteq> []"
    and "list_all2 (checked_as w t project_id expected) dbs cs"
  shows "fst (check_database_acl_of_project w project_id expected config s)
           = Inr (list_all chk_correct cs)
       \<and> requests (snd (check_database_acl_of_project w project_id expected config s))
           = requests s @ \<lparr>endpoint = Instances project_id, bearer = t\<rparr>
               # map (\<lambda>c. \<lparr>endpoint = Instance project_id (chk_id c), bearer = t\<rparr>) cs
       \<and> log (snd (check_database_acl_of_project w project_id expected config s))
           = log s @ map (\<lambda>c. if chk_correct c
                               then (INFO, AclCorrect (chk_name c) (chk_id c))
                               else (ERROR, AclCheckFailed (chk_name c) (chk_id c)
                                              expected (chk_acl c))) cs
       \<and> length cs = length dbs"
proof -
  from check_database_acl_of_project_run[OF assms(1), of project_id expected] obtain s' where
    s': "check_database_acl_of_project w project_id expected config s =
            (project_verdict w t project_id expected, s')"
        "\<forall>databases dbs cs.
                databases_of w t project_id = Inr databases \<longrightarrow>
                py_iter databases = Inr dbs \<longrightarrow>
                checks_of w t project_id expected dbs = Inr cs \<longrightarrow>
                  log s' = log s @ (if py_truthy databases then [] else [(INFO, NoDatabases)])
                             @ map (verdict_record expected) cs
                \<and> requests s' = requests s @ \<lparr>endpoint = Instances project_id, bearer = t\<rparr>
                             # map (acl_request t project_id) cs"
    by blast
  have cs: "checks_of w t project_id expected dbs = Inr cs"
    using assms(5) by (simp add: checks_of_iff)
  have truthy: "py_truthy databases"
    using assms(3,4) by (cases databases) auto
  from s'(2) assms(2,3) cs have
    "log s' = log s @ (if py_truthy databases then [] else [(INFO, NoDatabases)])
                             @ map (verdict_record expected) cs
     \<and> requests s' = requests s @ \<lparr>endpoint = Instances project_id, bearer = t\<rparr>
                             # map (acl_request t project_id) cs"
    by blast
  moreover have "project_verdict w t project_id expected = Inr (list_all chk_correct cs)"
    using assms(2,3) cs by (simp add: project_verdict_def)
  moreover have "verdict_record expected =
      (\<lambda>c. if chk_correct c then (INFO, AclCorrect (chk_name c) (chk_id c))
            else (ERROR, AclCheckFailed (chk_name c) (chk_id c) expected (chk_acl c)))"
    by (auto simp: verdict_record_def fun_eq_iff)
  moreover have "acl_request t project_id =
      (\<lambda>c. \<lparr>endpoint = Instance project_id (chk_id c), bearer = t\<rparr>)"
    by (auto simp: acl_request_def fun_eq_iff)
  ultimately show ?thesis
    using s'(1) truthy list_all2_lengthD[OF assms(5)] by simp
qed


lemmas scenario_eval =
  databases_of_def acls_of_def answer_def scenario_def ok_response_def raise_for_status_def
  response_json_def db_item_def

theorem every_instance_is_checked_witness:
  "fst (check_database_acl_of_project (scenario [''1.1.1.1/32'', ''3.3.3.3/32''] None)
          (JStr ''project_id_1'') (str_list [''1.1.1.1/32'']) default_StackITSettings init_state)
     = Inr False
   \<and> requests (snd (check_database_acl_of_project (scenario [''1.1.1.1/32'', ''3.3.3.3/32''] None)
          (JStr ''project_id_1'') (str_list [''1.1.1.1/32'']) default_StackITSettings init_state))
     = [\<lparr>endpoint = Instances (JStr ''project_id_1''), bearer = ''token''\<rparr>,
        \<lparr>endpoint = Instance (JStr ''project_id_1'') (JStr ''p_1_db_1_id''), bearer = ''token''\<rparr>,
        \<lparr>endpoint = Instance (JStr ''project_id_1'') (JStr ''p_1_db_2_id''), bearer = ''token''\<rparr>]
   \<and> log (snd (check_database_acl_of_project (scenario [''1.1.1.1/32'', ''3.3.3.3/32''] None)
          (JStr ''project_id_1'') (str_list [''1.1.1.1/32'']) default_StackITSettings init_state))
     = [(ERROR, AclCheckFailed (JStr ''p_1_db_1_name'') (JStr ''p_1_db_1_id'')
                  (str_list [''1.1.1.1/32'']) (str_list [''1.1.1.1/32'', ''3.3.3.3/32''])),
        (ERROR, AclCheckFailed (JStr ''p_1_db_2_name'') (JStr ''p_1_db_2_id'')
                  (str_list [''1.1.1.1/32'']) (str_list [''1.1.1.1/32'', ''3.3.3.3/32'']))]"
proof -
  let ?w = "scenario [''1.1.1.1/32'', ''3.3.3.3/32''] None"
  let ?dbs = "[db_item ''p_1_db_1_name'' ''p_1_db_1_id'', db_item ''p_1_db_2_name'' ''p_1_db_2_id'']"
  let ?cs = "[Checked (JStr ''p_1_db_1_name'') (JStr ''p_1_db_1_id'')
                (str_list [''1.1.1.1/32'', ''3.3.3.3/32'']) False,
              Checked (JStr ''p_1_db_2_name'') (JStr ''p_1_db_2_id'')
                (str_list [''1.1.1.1/32'', ''3.3.3.3/32'']) False]"
  have ready: "token_ready ?w (stackit_service_account_key_path default_StackITSettings)
                 ''token'' init_state"
    using scenario_token_ready by simp
  have dbs: "databases_of ?w ''token'' (JStr ''project_id_1'') = Inr (JArr ?dbs)"
    by (simp add: scenario_eval)
  have it: "py_iter (JArr ?dbs) = Inr ?dbs" by simp
  have ne: "?dbs \<noteq> []" by simp
  have cs: "list_all2 (checked_as ?w ''token'' (JStr ''project_id_1'') (str_list [''1.1.1.1/32'']))
              ?dbs ?cs"
    by (simp add: checked_as_def scenario_eval acl_is_correct_str_lists)
  show ?thesis
    using every_instance_is_checked[OF ready dbs it ne cs]
    by (simp add: init_state_def)
qed

text \<open>
  C1. For every expected egress range \<open>E\<close> and every list \<open>A\<close> of ACL rules, the
  test of the validator passes if and only if the set of the elements of \<open>A\<close> is the
  set of the elements of \<open>E\<close> (so neither the order nor repetitions matter); and this
  is the verdict \<^verbatim>\<open>check_database_acl_of_project\<close> returns for a project whose one
  instance has the rules \<open>A\<close>.
\<close>

theorem acl_verdict_is_set_equality:
  assumes "token_ready w (stackit_service_account_key_path config) t s"
    and "databases_of w t project_id = Inr (JArr [db])"
    and "py_getitem db ''id'' = Inr i"
    and "py_getitem db ''name'' = Inr n"
    and "acls_of w t project_id i = Inr (str_list A)"
  shows "acl_is_correct (str_list A) (str_list E) = Inr (set A = set E)
       \<and> fst (check_database_acl_of_project w project_id (str_list E) config s)
           = Inr (set A = set E)"
proof -
  from check_database_acl_of_project_run[OF assms(1), of project_id "str_list E"] obtain s' where
    "check_database_acl_of_project w project_id (str_list E) config s =
            (project_verdict w t project_id (str_list E), s')"
    by blast
  moreover have "project_verdict w t project_id (str_list E) = Inr (set A = set E)"
    using assms(2-5)
    by (simp add: project_verdict_def check_of_def acl_is_correct_str_lists)
  ultimately show ?thesis
    by (simp add: acl_is_correct_str_lists)
qed

theorem acl_verdict_is_set_equality_witness:
  "acl_is_correct (str_list [''2.2.2.2/32'', ''3.3.3.3/32'', ''2.2.2.2/32''])
       (str_list [''3.3.3.3/32'', ''2.2.2.2/32'']) = Inr True
   \<and> fst (check_database_acl_of_project
            (scenario [''1.1.1.1/32''] (Some [''2.2.2.2/32'', ''3.3.3.3/32'', ''2.2.2.2/32'']))
            (JStr ''project_id_2'') (str_list [''3.3.3.3/32'', ''2.2.2.2/32''])
            default_StackITSettings init_state) = Inr True"
proof -
  let ?w = "scenario [''1.1.1.1/32''] (Some [''2.2.2.2/32'', ''3.3.3.3/32'', ''2.2.2.2/32''])"
  have ready: "token_ready ?w (stackit_service_account_key_path default_StackITSettings)
                 ''token'' init_state"
    using scenario_token_ready by simp
  have dbs: "databases_of ?w ''token'' (JStr ''project_id_2'')
               = Inr (JArr [db_item ''p_2_db_1_name'' ''p_2_db_1_id''])"
    by (simp add: scenario_eval)
  have i: "py_getitem (db_item ''p_2_db_1_name'' ''p_2_db_1_id'') ''id'' = Inr (JStr ''p_2_db_1_id'')"
    and n: "py_getitem (db_item ''p_2_db_1_name'' ''p_2_db_1_id'') ''name''
              = Inr (JStr ''p_2_db_1_name'')"
    by (simp_all add: db_item_def)
  have acl: "acls_of ?w ''token'' (JStr ''project_id_2'') (JStr ''p_2_db_1_id'')
               = Inr (str_list [''2.2.2.2/32'', ''3.3.3.3/32'', ''2.2.2.2/32''])"
    by (simp add: scenario_eval)
  have "set [''2.2.2.2/32'', ''3.3.3.3/32'', ''2.2.2.2/32''] = set [''3.3.3.3/32'', ''2.2.2.2/32'']"
    by auto
  then show ?thesis
    using acl_verdict_is_set_equality[OF ready dbs i n acl, of "[''3.3.3.3/32'', ''2.2.2.2/32'']"]
    by simp
qed

section \<open>Cluster lookup and project listing\<close>

lemma get_cluster_egress_ip_run:
  assumes "token_ready w (stackit_service_account_key_path config) t s"
  shows "\<exists>s'. get_cluster_egress_ip w project_id cluster_name config s
              = (egress_of w t project_id cluster_name, s')
          \<and> token_ready w (stackit_service_account_key_path config) t s'"
proof -
  from api_get_ready[OF assms, of "Cluster project_id cluster_name"] obtain s' where
    s': "api_get w (Cluster project_id cluster_name) config s =
            (case httpx_get w \<lparr>endpoint = Cluster project_id cluster_name, bearer = t\<rparr> of
               None \<Rightarrow> Inl TransportError | Some r \<Rightarrow> Inr r, s')"
        "token_ready w (stackit_service_account_key_path config) t s'"
    by blast
  have "get_cluster_egress_ip w project_id cluster_name config s
          = (egress_of w t project_id cluster_name, s')"
    using s'(1)
    by (simp add: get_cluster_egress_ip_def egress_of_def answer_def monad_defs
          split: option.splits sum.splits)
  with s'(2) show ?thesis by blast
qed

lemma get_all_projects_run:
  assumes "token_ready w (stackit_service_account_key_path config) t s"
  shows "\<exists>s'. get_all_projects w organization_id config s
              = (org_projects_of w t organization_id, s')
          \<and> token_ready w (stackit_service_account_key_path config) t s'"
proof -
  from api_get_ready[OF assms, of "Projects organization_id"] obtain s' where
    s': "api_get w (Projects organization_id) config s =
            (case httpx_get w \<lparr>endpoint = Projects organization_id, bearer = t\<rparr> of
               None \<Rightarrow> Inl TransportError | Some r \<Rightarrow> Inr r, s')"
        "token_ready w (stackit_service_account_key_path config) t s'"
    by blast
  have "get_all_projects w organization_id config s = (org_projects_of w t organization_id, s')"
    using s'(1)
    by (simp add: get_all_projects_def org_projects_of_def answer_def monad_defs
          split: option.splits sum.splits)
  with s'(2) show ?thesis by blast
qed

lemma answer_success:
  assumes "httpx_get w \<lparr>endpoint = ep, bearer = t\<rparr> = Some r"
    and "200 \<le> status_code r" and "status_code r < 300"
    and "json_body r = Some body"
  shows "answer w t ep = Inr body"
  using assms by (simp add: answer_def raise_for_status_def response_json_def)

lemma canned_token_ready: "token_ready (canned body) key_file ''token'' init_state"
  by (simp add: token_ready_def get_bearer_token_def lru_cache_def init_state_def
        get_bearer_token_wrapped_def canned_def strip_def is_space_of_def is_space_def
        is_ascii_def Let_def)

lemma canned_answer: "httpx_get (canned body) req = Some \<lparr>status_code = 200, json_body = Some body\<rparr>"
  by (simp add: canned_def ok_response_def)

text \<open>
  C7, as the code has it. For every successful response to the Get Cluster request whose
  body has a \<^verbatim>\<open>status\<close> object: \<^verbatim>\<open>get_cluster_egress_ip\<close> fails with
  EgressRangeNotFound when the value of \<^verbatim>\<open>egressAddressRanges\<close> is an empty list or
  null; it fails with the \<^verbatim>\<open>KeyError\<close> of the lookup when the key is absent; and it
  returns the list when the list is not empty.
\<close>

theorem egress_range_empty_or_missing:
  assumes "token_ready w (stackit_service_account_key_path config) t s"
    and "httpx_get w \<lparr>endpoint = Cluster project_id cluster_name, bearer = t\<rparr> = Some r"
    and "200 \<le> status_code r" and "status_code r < 300"
    and "json_body r = Some cluster_data"
    and "py_getitem cluster_data ''status'' = Inr (JObj kvs)"
  shows "fst (get_cluster_egress_ip w project_id cluster_name config s) =
           (case map_of kvs ''egressAddressRanges'' of
              None \<Rightarrow> Inl (KeyError ''egressAddressRanges'')
            | Some JNull \<Rightarrow> Inl EgressRangeNotFound
            | Some (JArr []) \<Rightarrow> Inl EgressRangeNotFound
            | Some (JArr (x # xs)) \<Rightarrow> Inr (JArr (x # xs))
            | Some v \<Rightarrow> if py_truthy v then Inr v else Inl EgressRangeNotFound)"
proof -
  from get_cluster_egress_ip_run[OF assms(1), of project_id cluster_name] obtain s' where
    "get_cluster_egress_ip w project_id cluster_name config s
       = (egress_of w t project_id cluster_name, s')"
    by blast
  moreover have "answer w t (Cluster project_id cluster_name) = Inr cluster_data"
    using answer_success[OF assms(2-5)] .
  ultimately show ?thesis
    using assms(6)
    by (auto simp: egress_of_def split: option.splits json.splits list.splits)
qed

theorem egress_range_empty_or_missing_witness:
  "fst (get_cluster_egress_ip
          (canned (JObj [(''status'', JObj [(''egressAddressRanges'', JArr [])])]))
          ''p'' ''production'' default_OrgSettings init_state) = Inl EgressRangeNotFound
   \<and> fst (get_cluster_egress_ip
          (canned (JObj [(''status'', JObj [(''egressAddressRanges'', str_list [''1.1.1.1/32''])])]))
          ''p'' ''production'' default_OrgSettings init_state) = Inr (str_list [''1.1.1.1/32''])"
proof -
  have ready: "\<And>body. token_ready (canned body)
                 (stackit_service_account_key_path default_OrgSettings) ''token'' init_state"
    using canned_token_ready by simp
  have ok: "(200::nat) \<le> status_code \<lparr>status_code = 200, json_body = Some b\<rparr>"
       "status_code \<lparr>status_code = 200, json_body = Some b\<rparr> < 300"
       "json_body \<lparr>status_code = 200, json_body = Some b\<rparr> = Some b" for b
    by simp_all
  have st: "py_getitem (JObj [(''status'', JObj kvs)]) ''status'' = Inr (JObj kvs)" for kvs
    by simp
  show ?thesis
    using egress_range_empty_or_missing[OF ready canned_answer ok st,
            of "[(''egressAddressRanges'', JArr [])]" "''p''" "''production''"]
          egress_range_empty_or_missing[OF ready canned_answer ok st,
            of "[(''egressAddressRanges'', str_list [''1.1.1.1/32''])]" "''p''" "''production''"]
    by (simp add: str_list_def)
qed

text \<open>
  With the key \<^verbatim>\<open>egressAddressRanges\<close> absent from the \<^verbatim>\<open>status\<close> object of a
  successful response, the lookup raises \<^verbatim>\<open>KeyError\<close>; the guard for an empty range
  is not reached.
\<close>

theorem egress_range_absent_counterexample:
  "fst (get_cluster_egress_ip (canned (JObj [(''status'', JObj [])]))
          ''p'' ''production'' default_OrgSettings init_state)
     = Inl (KeyError ''egressAddressRanges'')
   \<and> fst (get_cluster_egress_ip (canned (JObj [(''status'', JObj [])]))
          ''p'' ''production'' default_OrgSettings init_state)
     \<noteq> Inl EgressRangeNotFound"
proof -
  have "token_ready (canned (JObj [(''status'', JObj [])]))
          (stackit_service_account_key_path default_OrgSettings) ''token'' init_state"
    using canned_token_ready by simp
  from get_cluster_egress_ip_run[OF this, of "''p''" "''production''"]
  show ?thesis
    by (auto simp: egress_of_def answer_def canned_def ok_response_def raise_for_status_def
          response_json_def EgressRangeNotFound_def)
qed


lemma project_pairs_objects:
  "list_all is_object ps \<Longrightarrow>
   project_pairs ps = Inr (map (\<lambda>p. (field_or_none p ''projectId'', field_or_none p ''name'')) ps)"
proof (induction ps)
  case Nil
  then show ?case by simp
next
  case (Cons p ps)
  then show ?case by (cases p) (auto split: option.splits)
qed

text \<open>
  C9. For every successful answer to the listing of an organization's projects whose
  items are JSON objects, \<^verbatim>\<open>get_all_projects\<close> returns one pair (project id, project
  name) per item, in order; a field the item lacks is \<^verbatim>\<open>None\<close> in the pair, and the
  listing does not fail.
\<close>

theorem missing_project_fields_are_none:
  assumes "token_ready w (stackit_service_account_key_path config) t s"
    and "httpx_get w \<lparr>endpoint = Projects organization_id, bearer = t\<rparr> = Some r"
    and "200 \<le> status_code r" and "status_code r < 300"
    and "json_body r = Some body"
    and "py_getitem body ''items'' = Inr (JArr ps)"
    and "list_all is_object ps"
  shows "fst (get_all_projects w organization_id config s) =
           Inr (map (\<lambda>p. (field_or_none p ''projectId'', field_or_none p ''name'')) ps)"
proof -
  from get_all_projects_run[OF assms(1), of organization_id] obtain s' where
    "get_all_projects w organization_id config s = (org_projects_of w t organization_id, s')"
    by blast
  moreover have "answer w t (Projects organization_id) = Inr body"
    using answer_success[OF assms(2-5)] .
  ultimately show ?thesis
    using assms(6) project_pairs_objects[OF assms(7)]
    by (simp add: org_projects_of_def)
qed

theorem missing_project_fields_are_none_witness:
  "fst (get_all_projects
          (canned (JObj [(''items'', JArr [JObj [(''projectId'', JStr ''project_id_1'')],
                                          JObj [(''name'', JStr ''project_name_2'')],
                                          JObj []])]))
          ''org-id'' default_OrgSettings init_state)
     = Inr [(JStr ''project_id_1'', JNull), (JNull, JStr ''project_name_2''), (JNull, JNull)]"
proof -
  let ?ps = "[JObj [(''projectId'', JStr ''project_id_1'')],
              JObj [(''name'', JStr ''project_name_2'')], JObj []]"
  have ready: "token_ready (canned (JObj [(''items'', JArr ?ps)]))
                 (stackit_service_account_key_path default_OrgSettings) ''token'' init_state"
    using canned_token_ready by simp
  have ok: "(200::nat) \<le> status_code \<lparr>status_code = 200, json_body = Some b\<rparr>"
       "status_code \<lparr>status_code = 200, json_body = Some b\<rparr> < 300"
       "json_body \<lparr>status_code = 200, json_body = Some b\<rparr> = Some b" for b
    by simp_all
  have items: "py_getitem (JObj [(''items'', JArr ?ps)]) ''items'' = Inr (JArr ?ps)"
    by simp
  have objs: "list_all is_object ?ps" by simp
  show ?thesis
    using missing_project_fields_are_none[OF ready canned_answer ok items objs, of "''org-id''"]
    by simp
qed

section \<open>The verdict of a run\<close>

subsection \<open>No step below the orchestrators raises the final error\<close>

lemma py_getitem_no_exception [simp]: "py_getitem v k \<noteq> Inl (Exception m)"
  by (cases v) (auto split: option.splits)

lemma py_get_no_exception [simp]: "py_get v k d \<noteq> Inl (Exception m)"
  by (cases v) (auto split: option.splits)

lemma py_iter_no_exception [simp]: "py_iter v \<noteq> Inl (Exception m)"
  by (cases v) auto

lemma py_hash_all_no_exception [simp]: "py_hash_all xs \<noteq> Inl (Exception m)"
proof (induction xs)
  case Nil
  then show ?case by simp
next
  case (Cons x xs)
  then show ?case by (cases x) (auto split: sum.splits)
qed

lemma py_set_no_exception [simp]: "py_set v \<noteq> Inl (Exception m)"
  by (auto simp: py_set_def split: sum.splits)

lemma acl_is_correct_no_exception [simp]: "acl_is_correct a b \<noteq> Inl (Exception m)"
  by (auto simp: acl_is_correct_def split: sum.splits)

lemma answer_no_exception [simp]: "answer w t ep \<noteq> Inl (Exception m)"
  by (auto simp: answer_def raise_for_status_def response_json_def split: option.splits sum.splits)

lemma databases_of_no_exception [simp]: "databases_of w t p \<noteq> Inl (Exception m)"
  by (auto simp: databases_of_def split: sum.splits)

lemma acls_of_no_exception [simp]: "acls_of w t p i \<noteq> Inl (Exception m)"
  by (auto simp: acls_of_def split: sum.splits)

lemma project_name_of_no_exception [simp]: "project_name_of w t p \<noteq> Inl (Exception m)"
  by (auto simp: project_name_of_def split: sum.splits)

lemma check_of_no_exception [simp]: "check_of w t p ex db \<noteq> Inl (Exception m)"
  by (auto simp: check_of_def split: sum.splits)

lemma checks_of_no_exception [simp]: "checks_of w t p ex dbs \<noteq> Inl (Exception m)"
  by (induction dbs) (auto split: sum.splits)

lemma project_verdict_no_exception [simp]: "project_verdict w t p ex \<noteq> Inl (Exception m)"
  by (auto simp: project_verdict_def split: sum.splits)

lemma project_details_of_no_exception [simp]: "project_details_of w t ps \<noteq> Inl (Exception m)"
  by (induction ps) (auto split: sum.splits)

lemma egress_of_no_exception [simp]: "egress_of w t p c \<noteq> Inl (Exception m)"
  by (auto simp: egress_of_def EgressRangeNotFound_def split: sum.splits)

lemma project_pairs_no_exception [simp]: "project_pairs ps \<noteq> Inl (Exception m)"
  by (induction ps) (auto split: sum.splits)

lemma org_projects_of_no_exception [simp]: "org_projects_of w t org \<noteq> Inl (Exception m)"
  by (auto simp: org_projects_of_def split: sum.splits)

subsection \<open>Verdicts and mismatches\<close>

lemma checked_as_mismatch:
  "checked_as w t p ex db c \<Longrightarrow> instance_mismatch w t p ex db = (\<not> chk_correct c)"
  by (auto simp: checked_as_def instance_mismatch_def)

lemma checks_of_mismatch:
  "list_all2 (checked_as w t p ex) dbs cs \<Longrightarrow>
   list_all chk_correct cs = (\<not> list_ex (instance_mismatch w t p ex) dbs)"
  by (induction dbs cs rule: list_all2_induct) (auto simp: checked_as_mismatch)

lemma project_verdict_mismatch:
  "project_verdict w t p ex = Inr ok \<Longrightarrow> ok = (\<not> project_mismatch w t ex p)"
  by (auto simp: project_verdict_def project_mismatch_def checks_of_iff checks_of_mismatch
        split: sum.splits)


subsection \<open>The loop over the projects\<close>

lemma get_egress_range_not_a_string:
  "\<not> (\<exists>n. project_name = JStr n) \<Longrightarrow>
   get_egress_range w project_name prod_range non_prod_range s = (Inl AttributeError, s)"
  by (cases project_name) (auto simp: get_egress_range_def monad_defs)

lemma get_egress_range_run:
  "\<exists>s'. get_egress_range w (JStr n) prod_range non_prod_range s
            = (Inr (expected_range w (JStr n) prod_range non_prod_range), s')
        \<and> token_ready w k t s' = token_ready w k t s"
  by (simp add: get_egress_range_def monad_defs logger_info_def expected_range_def)

lemma check_projects_run:
  assumes "token_ready w (stackit_service_account_key_path config) t s"
  shows "\<exists>s'. check_projects w prod_range non_prod_range config projects flag s =
            (case projects_verdict w t prod_range non_prod_range projects of
               Inl e \<Rightarrow> Inl e
             | Inr ok \<Rightarrow> Inr (flag \<and> ok), s')
          \<and> token_ready w (stackit_service_account_key_path config) t s'"
  using assms
proof (induction projects arbitrary: flag s)
  case Nil
  then show ?case by (simp add: return_def)
next
  case (Cons p projects)
  let ?k = "stackit_service_account_key_path config"
  show ?case
  proof (cases "\<exists>n. snd p = JStr n")
    case False
    then have "py_upper (unicode_upper w) (snd p) = Inl AttributeError"
      by (cases "snd p") auto
    then show ?thesis
      using False Cons.prems get_egress_range_not_a_string[of "snd p"]
      by (simp add: monad_defs)
  next
    case True
    then obtain n where n: "snd p = JStr n" by blast
    define ex where "ex = expected_range w (snd p) prod_range non_prod_range"
    obtain s1 where
      s1: "get_egress_range w (snd p) prod_range non_prod_range s = (Inr ex, s1)"
          "token_ready w ?k t s1"
      using Cons.prems get_egress_range_run[of w n prod_range non_prod_range s ?k t]
      unfolding ex_def n by blast
    from check_database_acl_of_project_run[OF s1(2), of "fst p" ex] obtain s2 where
      s2: "check_database_acl_of_project w (fst p) ex config s1
             = (project_verdict w t (fst p) ex, s2)"
          "token_ready w ?k t s2"
      by blast
    show ?thesis
    proof (cases "project_verdict w t (fst p) ex")
      case (Inl e)
      then have "check_projects w prod_range non_prod_range config (p # projects) flag s
                   = (Inl e, s2)"
        using s1(1) s2(1) by (simp add: monad_defs)
      then show ?thesis using s2(2) Inl n by (simp add: ex_def)
    next
      case (Inr ok)
      then have step: "check_projects w prod_range non_prod_range config (p # projects) flag s
                   = check_projects w prod_range non_prod_range config projects (flag \<and> ok) s2"
        using s1(1) s2(1) by (cases ok) (simp_all add: monad_defs)
      from Cons.IH[OF s2(2), of "flag \<and> ok"] obtain s' where
        r: "check_projects w prod_range non_prod_range config projects (flag \<and> ok) s2 =
              (case projects_verdict w t prod_range non_prod_range projects of
                 Inl e \<Rightarrow> Inl e
               | Inr oks \<Rightarrow> Inr ((flag \<and> ok) \<and> oks), s')"
           "token_ready w ?k t s'"
        by blast
      have "check_projects w prod_range non_prod_range config (p # projects) flag s =
            (case projects_verdict w t prod_range non_prod_range (p # projects) of
               Inl e \<Rightarrow> Inl e
             | Inr ok \<Rightarrow> Inr (flag \<and> ok), s')"
        using step r(1) Inr n by (auto simp: ex_def split: sum.splits)
      then show ?thesis using r(2) by blast
    qed
  qed
qed

lemma projects_verdict_no_exception [simp]:
  "projects_verdict w t prod_range non_prod_range ps \<noteq> Inl (Exception m)"
proof (induction ps)
  case Nil
  then show ?case by simp
next
  case (Cons p ps)
  have "py_upper (unicode_upper w) (snd p) \<noteq> Inl (Exception m)" by (cases "snd p") auto
  with Cons show ?case by (auto split: sum.splits)
qed

lemma projects_verdict_mismatch:
  "projects_verdict w t prod_range non_prod_range ps = Inr ok \<Longrightarrow>
   ok = (\<not> some_mismatch w t prod_range non_prod_range ps)"
proof (induction ps arbitrary: ok)
  case Nil
  then show ?case by (auto simp: some_mismatch_def)
next
  case (Cons p ps)
  from Cons.prems obtain ok1 oks where
    v: "project_verdict w t (fst p) (expected_range w (snd p) prod_range non_prod_range) = Inr ok1"
       "projects_verdict w t prod_range non_prod_range ps = Inr oks"
       "ok = (ok1 \<and> oks)"
    by (auto split: sum.splits)
  show ?case
    using project_verdict_mismatch[OF v(1)] Cons.IH[OF v(2)] v(3)
    by (auto simp: some_mismatch_def)
qed

lemma outcome_cases:
  assumes "v \<noteq> Inl acl_mismatch"
  shows "(outcome v = Inl acl_mismatch \<longleftrightarrow> v = Inr False)"
    and "(outcome v = Inr () \<longleftrightarrow> v = Inr True)"
  using assms by (auto simp: outcome_def split: sum.splits)

lemma get_project_details_run:
  assumes "token_ready w (stackit_service_account_key_path config) t s"
  shows "\<exists>s'. get_project_details w project_ids config s = (project_details_of w t project_ids, s')
          \<and> token_ready w (stackit_service_account_key_path config) t s'"
  using assms
proof (induction project_ids arbitrary: s)
  case Nil
  then show ?case by (simp add: return_def)
next
  case (Cons project_id project_ids)
  let ?k = "stackit_service_account_key_path config"
  from api_get_ready[OF Cons.prems, of "Project project_id"] obtain s1 where
    s1: "api_get w (Project project_id) config s =
            (case httpx_get w \<lparr>endpoint = Project project_id, bearer = t\<rparr> of
               None \<Rightarrow> Inl TransportError | Some r \<Rightarrow> Inr r, s1)"
        "token_ready w ?k t s1"
    by blast
  from Cons.IH[OF s1(2)] obtain s' where
    s': "get_project_details w project_ids config s1 = (project_details_of w t project_ids, s')"
        "token_ready w ?k t s'"
    by blast
  show ?case
  proof (cases "project_name_of w t project_id")
    case (Inl e)
    then have "get_project_details w (project_id # project_ids) config s = (Inl e, s1)"
      using s1(1)
      by (auto simp: project_name_of_def answer_def monad_defs split: option.splits sum.splits)
    then show ?thesis using Inl s1(2) by simp
  next
    case (Inr n)
    then have "get_project_details w (project_id # project_ids) config s
                 = (project_details_of w t (project_id # project_ids), s')"
      using s1(1) s'(1)
      by (auto simp: project_name_of_def answer_def monad_defs split: option.splits sum.splits)
    then show ?thesis using s'(2) by blast
  qed
qed


subsection \<open>The two commands\<close>

lemma report_run: "report ok s = (outcome (Inr ok), if ok then s\<lparr>log := log s @ [(INFO, AllCorrect)]\<rparr> else s)"
  by (simp add: report_def outcome_def logger_info_def raise_def)

lemma validate_projects_run:
  assumes "token_ready w (stackit_service_account_key_path (env_StackITSettings w)) t s"
  shows "fst (validate_projects w project_ids prod_egress_range non_prod_egress_range s) =
           (case project_details_of w t project_ids of
              Inl e \<Rightarrow> Inl e
            | Inr projects \<Rightarrow>
                outcome (projects_verdict w t (opt_str_list prod_egress_range)
                           (opt_str_list non_prod_egress_range) projects))"
proof -
  let ?cfg = "env_StackITSettings w"
  let ?k = "stackit_service_account_key_path ?cfg"
  define s0 where "s0 = s\<lparr>log := log s @ [(INFO, Starting)]\<rparr>"
  have ready0: "token_ready w ?k t s0" using assms by (simp add: s0_def)
  from get_project_details_run[OF ready0, of project_ids] obtain s1 where
    s1: "get_project_details w project_ids ?cfg s0 = (project_details_of w t project_ids, s1)"
        "token_ready w ?k t s1"
    by blast
  show ?thesis
  proof (cases "project_details_of w t project_ids")
    case (Inl e)
    then show ?thesis
      using s1(1) by (simp add: validate_projects_def monad_defs logger_info_def s0_def Let_def)
  next
    case (Inr projects)
    from check_projects_run[OF s1(2), of "opt_str_list prod_egress_range"
           "opt_str_list non_prod_egress_range" projects True] obtain s2 where
      s2: "check_projects w (opt_str_list prod_egress_range) (opt_str_list non_prod_egress_range)
             ?cfg projects True s1 =
            (case projects_verdict w t (opt_str_list prod_egress_range)
                    (opt_str_list non_prod_egress_range) projects of
               Inl e \<Rightarrow> Inl e
             | Inr ok \<Rightarrow> Inr (True \<and> ok), s2)"
      by blast
    show ?thesis
      using s1(1) s2 Inr
      by (auto simp: validate_projects_def bind_m_def logger_info_def s0_def Let_def report_run
            outcome_def split: sum.splits)
  qed
qed


lemma bind_m_Inr: "c s = (Inr x, s') \<Longrightarrow> bind_m c f s = f x s'"
  by (simp add: bind_m_def)

lemma bind_m_Inl: "c s = (Inl e, s') \<Longrightarrow> bind_m c f s = (Inl e, s')"
  by (simp add: bind_m_def)

lemma bind_logger_info:
  "bind_m (logger_info msg) f s = f () (s\<lparr>log := log s @ [(INFO, msg)]\<rparr>)"
  by (simp add: bind_m_def logger_info_def)

lemma validate_org_run:
  assumes "token_ready w (stackit_service_account_key_path (env_OrgSettings w)) t s"
  shows "fst (validate_org w organization_id s) =
           (case egress_of w t (cc_project_id (prod_cluster (env_OrgSettings w)))
                   (cc_name (prod_cluster (env_OrgSettings w))) of
              Inl e \<Rightarrow> Inl e
            | Inr prod_range \<Rightarrow>
                (case egress_of w t (cc_project_id (non_prod_cluster (env_OrgSettings w)))
                        (cc_name (non_prod_cluster (env_OrgSettings w))) of
                   Inl e \<Rightarrow> Inl e
                 | Inr non_prod_range \<Rightarrow>
                     (case org_projects_of w t organization_id of
                        Inl e \<Rightarrow> Inl e
                      | Inr projects \<Rightarrow>
                          outcome (projects_verdict w t prod_range non_prod_range projects))))"
proof -
  let ?S = "env_OrgSettings w"
  let ?k = "stackit_service_account_key_path ?S"
  let ?P = "prod_cluster ?S" and ?N = "non_prod_cluster ?S"
  define s0 where "s0 = s\<lparr>log := log s @ [(INFO, Starting), (INFO, GettingClusterEgressIPs)]\<rparr>"
  have ready0: "token_ready w ?k t s0" using assms by (simp add: s0_def)
  have start: "validate_org w organization_id s =
      bind_m (ClusterConfig_get_egress_range w ?P ?S) (\<lambda>c.
        bind_m (ClusterConfig_get_egress_range w ?N (?S\<lparr>prod_cluster := c\<rparr>)) (\<lambda>c'.
        bind_m (logger_info (ProdClusterEgressIP (cc_egress_range c))) (\<lambda>_.
        bind_m (logger_info (NonProdClusterEgressIP (cc_egress_range c'))) (\<lambda>_.
        bind_m (logger_info GettingAllProjects) (\<lambda>_.
        bind_m (get_all_projects w organization_id
                  (?S\<lparr>prod_cluster := c, non_prod_cluster := c'\<rparr>)) (\<lambda>projects.
        if projects = [] then logger_info NoProjectsFound
        else
          bind_m (logger_info (FoundProjects (length projects))) (\<lambda>_.
          bind_m (logger_info CheckingAllProjects) (\<lambda>_.
          bind_m (check_projects w (cc_egress_range c) (cc_egress_range c')
                    (?S\<lparr>prod_cluster := c, non_prod_cluster := c'\<rparr>) projects True)
            report)))))))) s0"
    by (simp add: validate_org_def bind_logger_info Let_def s0_def cong: if_cong)
  from get_cluster_egress_ip_run[OF ready0, of "cc_project_id ?P" "cc_name ?P"] obtain s1 where
    s1: "get_cluster_egress_ip w (cc_project_id ?P) (cc_name ?P) ?S s0
           = (egress_of w t (cc_project_id ?P) (cc_name ?P), s1)"
        "token_ready w ?k t s1"
    by blast
  show ?thesis
  proof (cases "egress_of w t (cc_project_id ?P) (cc_name ?P)")
    case (Inl e)
    then have "ClusterConfig_get_egress_range w ?P ?S s0 = (Inl e, s1)"
      using s1(1) by (simp add: ClusterConfig_get_egress_range_def bind_m_def)
    then show ?thesis
      using Inl unfolding start by (simp add: bind_m_def)
  next
    case p: (Inr prod_range)
    let ?c = "?P\<lparr>cc_egress_range := prod_range\<rparr>"
    let ?S1 = "?S\<lparr>prod_cluster := ?c\<rparr>"
    have c1: "ClusterConfig_get_egress_range w ?P ?S s0 = (Inr ?c, s1)"
      using s1(1) p by (simp add: ClusterConfig_get_egress_range_def bind_m_def return_def)
    have ready1: "token_ready w (stackit_service_account_key_path ?S1) t s1"
      using s1(2) by simp
    from get_cluster_egress_ip_run[OF ready1, of "cc_project_id ?N" "cc_name ?N"] obtain s2 where
      s2: "get_cluster_egress_ip w (cc_project_id ?N) (cc_name ?N) ?S1 s1
             = (egress_of w t (cc_project_id ?N) (cc_name ?N), s2)"
          "token_ready w ?k t s2"
      by auto
    have step1: "validate_org w organization_id s =
        bind_m (ClusterConfig_get_egress_range w ?N ?S1) (\<lambda>c'.
        bind_m (logger_info (ProdClusterEgressIP prod_range)) (\<lambda>_.
        bind_m (logger_info (NonProdClusterEgressIP (cc_egress_range c'))) (\<lambda>_.
        bind_m (logger_info GettingAllProjects) (\<lambda>_.
        bind_m (get_all_projects w organization_id
                  (?S\<lparr>prod_cluster := ?c, non_prod_cluster := c'\<rparr>)) (\<lambda>projects.
        if projects = [] then logger_info NoProjectsFound
        else
          bind_m (logger_info (FoundProjects (length projects))) (\<lambda>_.
          bind_m (logger_info CheckingAllProjects) (\<lambda>_.
          bind_m (check_projects w prod_range (cc_egress_range c')
                    (?S\<lparr>prod_cluster := ?c, non_prod_cluster := c'\<rparr>) projects True)
            report))))))) s1"
      unfolding start
      by (subst bind_m_Inr[of "ClusterConfig_get_egress_range w ?P ?S" s0, OF c1])
         (simp cong: if_cong)
    show ?thesis
    proof (cases "egress_of w t (cc_project_id ?N) (cc_name ?N)")
      case (Inl e)
      then have "ClusterConfig_get_egress_range w ?N ?S1 s1 = (Inl e, s2)"
        using s2(1) by (simp add: ClusterConfig_get_egress_range_def bind_m_def)
      then show ?thesis
        using Inl p unfolding step1 by (simp add: bind_m_def)
    next
      case np: (Inr non_prod_range)
      let ?c' = "?N\<lparr>cc_egress_range := non_prod_range\<rparr>"
      let ?S2 = "?S\<lparr>prod_cluster := ?c, non_prod_cluster := ?c'\<rparr>"
      have c2: "ClusterConfig_get_egress_range w ?N ?S1 s1 = (Inr ?c', s2)"
        using s2(1) np by (simp add: ClusterConfig_get_egress_range_def bind_m_def return_def)
      define s3 where "s3 = s2\<lparr>log := log s2 @ [(INFO, ProdClusterEgressIP prod_range),
                         (INFO, NonProdClusterEgressIP non_prod_range), (INFO, GettingAllProjects)]\<rparr>"
      have ready3: "token_ready w (stackit_service_account_key_path ?S2) t s3"
        using s2(2) by (simp add: s3_def)
      from get_all_projects_run[OF ready3, of organization_id] obtain s4 where
        s4: "get_all_projects w organization_id ?S2 s3 = (org_projects_of w t organization_id, s4)"
            "token_ready w (stackit_service_account_key_path ?S2) t s4"
        by blast
      have upto: "validate_org w organization_id s =
          bind_m (get_all_projects w organization_id ?S2) (\<lambda>projects.
            if projects = [] then logger_info NoProjectsFound
            else
              bind_m (logger_info (FoundProjects (length projects))) (\<lambda>_.
              bind_m (logger_info CheckingAllProjects) (\<lambda>_.
              bind_m (check_projects w prod_range non_prod_range ?S2 projects True) report))) s3"
        unfolding step1
        by (subst bind_m_Inr[of "ClusterConfig_get_egress_range w ?N ?S1" s1, OF c2])
           (simp add: bind_logger_info s3_def cong: if_cong)
      show ?thesis
      proof (cases "org_projects_of w t organization_id")
        case (Inl e)
        then show ?thesis
          using s4(1) p np unfolding upto by (simp add: bind_m_def)
      next
        case ps: (Inr projects)
        have g: "get_all_projects w organization_id ?S2 s3 = (Inr projects, s4)"
          using s4(1) ps by simp
        show ?thesis
        proof (cases "projects = []")
          case True
          then show ?thesis
            using p np ps unfolding upto
            by (subst bind_m_Inr[of "get_all_projects w organization_id ?S2" s3, OF g])
               (simp add: logger_info_def outcome_def)
        next
          case False
          define s5 where "s5 = s4\<lparr>log := log s4 @ [(INFO, FoundProjects (length projects)),
                                (INFO, CheckingAllProjects)]\<rparr>"
          have ready5: "token_ready w (stackit_service_account_key_path ?S2) t s5"
            using s4(2) by (simp add: s5_def)
          from check_projects_run[OF ready5, of prod_range non_prod_range projects True]
          obtain s6 where
            s6: "check_projects w prod_range non_prod_range ?S2 projects True s5 =
                  (case projects_verdict w t prod_range non_prod_range projects of
                     Inl e \<Rightarrow> Inl e
                   | Inr ok \<Rightarrow> Inr (True \<and> ok), s6)"
            by blast
          have "validate_org w organization_id s =
                  bind_m (check_projects w prod_range non_prod_range ?S2 projects True) report s5"
            unfolding upto
            by (subst bind_m_Inr[of "get_all_projects w organization_id ?S2" s3, OF g])
               (simp add: False bind_logger_info s5_def)
          then show ?thesis
            using p np ps s6
            by (auto simp: bind_m_def report_run outcome_def split: sum.splits)
        qed
      qed
    qed
  qed
qed


lemma outcome_completed:
  assumes "outcome v = Inl acl_mismatch \<or> outcome v = Inr ()"
    and "v \<noteq> Inl acl_mismatch"
  shows "\<exists>ok. v = Inr ok \<and> (outcome v = Inl acl_mismatch) = (\<not> ok)"
  using assms by (cases v) (auto simp: outcome_def acl_mismatch_def)

lemma projects_verdict_completed:
  assumes "outcome (projects_verdict w t prod_range non_prod_range projects) = Inl acl_mismatch
         \<or> outcome (projects_verdict w t prod_range non_prod_range projects) = Inr ()"
  shows "(outcome (projects_verdict w t prod_range non_prod_range projects) = Inl acl_mismatch)
           = some_mismatch w t prod_range non_prod_range projects"
proof -
  have "projects_verdict w t prod_range non_prod_range projects \<noteq> Inl acl_mismatch"
    by (simp add: acl_mismatch_def)
  from outcome_completed[OF assms this] obtain ok where
    ok: "projects_verdict w t prod_range non_prod_range projects = Inr ok"
        "(outcome (projects_verdict w t prod_range non_prod_range projects) = Inl acl_mismatch)
           = (\<not> ok)"
    by blast
  show ?thesis
    using ok(2) projects_verdict_mismatch[OF ok(1)] by simp
qed

lemma validate_org_completed:
  assumes "token_ready w (stackit_service_account_key_path (env_OrgSettings w)) t s"
    and "fst (validate_org w organization_id s) = Inl acl_mismatch
       \<or> fst (validate_org w organization_id s) = Inr ()"
  shows "\<exists>prod_range non_prod_range projects.
           egress_of w t (cc_project_id (prod_cluster (env_OrgSettings w)))
             (cc_name (prod_cluster (env_OrgSettings w))) = Inr prod_range
         \<and> egress_of w t (cc_project_id (non_prod_cluster (env_OrgSettings w)))
             (cc_name (non_prod_cluster (env_OrgSettings w))) = Inr non_prod_range
         \<and> org_projects_of w t organization_id = Inr projects
         \<and> (fst (validate_org w organization_id s) = Inl acl_mismatch)
             = some_mismatch w t prod_range non_prod_range projects"
proof -
  let ?P = "prod_cluster (env_OrgSettings w)" and ?N = "non_prod_cluster (env_OrgSettings w)"
  note run = validate_org_run[OF assms(1), of organization_id]
  obtain prod_range where p: "egress_of w t (cc_project_id ?P) (cc_name ?P) = Inr prod_range"
    using assms(2) unfolding run
    by (cases "egress_of w t (cc_project_id ?P) (cc_name ?P)") (auto simp: acl_mismatch_def)
  obtain non_prod_range where
    np: "egress_of w t (cc_project_id ?N) (cc_name ?N) = Inr non_prod_range"
    using assms(2) unfolding run p
    by (cases "egress_of w t (cc_project_id ?N) (cc_name ?N)") (auto simp: acl_mismatch_def)
  obtain projects where ps: "org_projects_of w t organization_id = Inr projects"
    using assms(2) unfolding run p np
    by (cases "org_projects_of w t organization_id") (auto simp: acl_mismatch_def)
  have r: "fst (validate_org w organization_id s)
             = outcome (projects_verdict w t prod_range non_prod_range projects)"
    unfolding run p np ps by simp
  show ?thesis
    using p np ps projects_verdict_completed[of w t prod_range non_prod_range projects]
      assms(2) unfolding r by blast
qed

lemma validate_projects_completed:
  assumes "token_ready w (stackit_service_account_key_path (env_StackITSettings w)) t s"
    and "fst (validate_projects w project_ids prod_egress_range non_prod_egress_range s)
           = Inl acl_mismatch
       \<or> fst (validate_projects w project_ids prod_egress_range non_prod_egress_range s) = Inr ()"
  shows "\<exists>projects.
           project_details_of w t project_ids = Inr projects
         \<and> (fst (validate_projects w project_ids prod_egress_range non_prod_egress_range s)
               = Inl acl_mismatch)
             = some_mismatch w t (opt_str_list prod_egress_range)
                 (opt_str_list non_prod_egress_range) projects"
proof -
  note run = validate_projects_run[OF assms(1), of project_ids prod_egress_range
               non_prod_egress_range]
  obtain projects where ps: "project_details_of w t project_ids = Inr projects"
    using assms(2) unfolding run
    by (cases "project_details_of w t project_ids") (auto simp: acl_mismatch_def)
  have r: "fst (validate_projects w project_ids prod_egress_range non_prod_egress_range s)
             = outcome (projects_verdict w t (opt_str_list prod_egress_range)
                          (opt_str_list non_prod_egress_range) projects)"
    unfolding run ps by simp
  show ?thesis
    using ps projects_verdict_completed[of w t "opt_str_list prod_egress_range"
                "opt_str_list non_prod_egress_range" projects]
      assms(2) unfolding r by blast
qed

text \<open>
  C2. For every run of \<^verbatim>\<open>validate_org\<close> or of \<^verbatim>\<open>validate_projects\<close> in which
  authentication succeeds and which ends either with the final error or successfully
  (no other exception stops it): the cluster ranges (for \<^verbatim>\<open>validate_org\<close>) and the
  projects were read from the provider, and the run ends with the final error if and
  only if some database instance of some processed project has an ACL set different
  from the set of the range its project's name selects. So a completed run with no
  such instance (no projects, or projects without databases, included) succeeds.
\<close>

theorem run_fails_iff_some_mismatch:
  "(token_ready w (stackit_service_account_key_path (env_OrgSettings w)) t s
      \<and> (fst (validate_org w organization_id s) = Inl acl_mismatch
           \<or> fst (validate_org w organization_id s) = Inr ())
    \<longrightarrow> (\<exists>prod_range non_prod_range projects.
           egress_of w t (cc_project_id (prod_cluster (env_OrgSettings w)))
             (cc_name (prod_cluster (env_OrgSettings w))) = Inr prod_range
         \<and> egress_of w t (cc_project_id (non_prod_cluster (env_OrgSettings w)))
             (cc_name (non_prod_cluster (env_OrgSettings w))) = Inr non_prod_range
         \<and> org_projects_of w t organization_id = Inr projects
         \<and> (fst (validate_org w organization_id s) = Inl acl_mismatch)
             = some_mismatch w t prod_range non_prod_range projects))
   \<and> (token_ready w (stackit_service_account_key_path (env_StackITSettings w)) t s
      \<and> (fst (validate_projects w project_ids prod_egress_range non_prod_egress_range s)
             = Inl acl_mismatch
           \<or> fst (validate_projects w project_ids prod_egress_range non_prod_egress_range s)
             = Inr ())
    \<longrightarrow> (\<exists>projects.
           project_details_of w t project_ids = Inr projects
         \<and> (fst (validate_projects w project_ids prod_egress_range non_prod_egress_range s)
               = Inl acl_mismatch)
             = some_mismatch w t (opt_str_list prod_egress_range)
                 (opt_str_list non_prod_egress_range) projects))"
  using validate_org_completed[of w t s organization_id]
    validate_projects_completed[of w t s project_ids prod_egress_range non_prod_egress_range]
  by blast


lemma scenario_names:
  "py_in ''NON-PROD'' (upper table ''project_name_2 NON-PROD'')"
  "\<not> py_in ''NON-PROD'' (upper table ''project_name_1 PROD'')"
proof -
  have 2: "letterwise table ''project_name_2 NON-PROD''"
    by (rule letterwise_ascii) (simp add: is_ascii_def)
  have 1: "letterwise table ''project_name_1 PROD''"
    by (rule letterwise_ascii) (simp add: is_ascii_def)
  show "py_in ''NON-PROD'' (upper table ''project_name_2 NON-PROD'')"
    unfolding py_in_marker[OF 2]
    by (simp add: occurs_any_case_def same_letter_def lowercase_def uppercase_def)
  show "\<not> py_in ''NON-PROD'' (upper table ''project_name_1 PROD'')"
    unfolding py_in_marker[OF 1]
    by (simp add: occurs_any_case_def same_letter_def lowercase_def uppercase_def)
qed

lemmas scenario_run_eval =
  egress_of_def org_projects_of_def project_name_of_def project_verdict_def check_of_def
  expected_range_def scenario_names outcome_def EgressRangeNotFound_def

lemma scenario_settings [simp]:
  "env_OrgSettings (scenario a b) = default_OrgSettings"
  "env_StackITSettings (scenario a b) = default_StackITSettings"
  by (simp_all add: scenario_def)

lemma default_clusters [simp]:
  "cc_project_id (prod_cluster default_OrgSettings) = ''df003e90-b77d-4d31-a06c-cd7f4013076d''"
  "cc_name (prod_cluster default_OrgSettings) = ''production''"
  "cc_project_id (non_prod_cluster default_OrgSettings) = ''dceaea5e-fc88-4adb-8c7f-6bcb112835bb''"
  "cc_name (non_prod_cluster default_OrgSettings) = ''non-prod''"
  by (simp_all add: default_OrgSettings_def)

theorem run_fails_iff_some_mismatch_witness:
  "fst (validate_org (scenario [''1.1.1.1/32'', ''3.3.3.3/32''] (Some [''2.2.2.2/32'']))
          ''org-id'' init_state) = Inl acl_mismatch
   \<and> some_mismatch (scenario [''1.1.1.1/32'', ''3.3.3.3/32''] (Some [''2.2.2.2/32''])) ''token''
        (str_list [''1.1.1.1/32'']) (str_list [''2.2.2.2/32''])
        [(JStr ''project_id_1'', JStr ''project_name_1 PROD''),
         (JStr ''project_id_2'', JStr ''project_name_2 NON-PROD'')]
   \<and> fst (validate_projects (scenario [''1.1.1.1/32''] None)
          [''project_id_1'', ''project_id_2''] (Some [''1.1.1.1/32'']) (Some [''2.2.2.2/32''])
          init_state) = Inr ()
   \<and> \<not> some_mismatch (scenario [''1.1.1.1/32''] None) ''token''
        (str_list [''1.1.1.1/32'']) (str_list [''2.2.2.2/32''])
        [(JStr ''project_id_1'', JStr ''project_name_1 PROD''),
         (JStr ''project_id_2'', JStr ''project_name_2 NON-PROD'')]"
proof -
  let ?B = "scenario [''1.1.1.1/32'', ''3.3.3.3/32''] (Some [''2.2.2.2/32''])"
  let ?C = "scenario [''1.1.1.1/32''] None"
  let ?ps = "[(JStr ''project_id_1'', JStr ''project_name_1 PROD''),
              (JStr ''project_id_2'', JStr ''project_name_2 NON-PROD'')]"
  have readyB: "token_ready ?B (stackit_service_account_key_path (env_OrgSettings ?B))
                  ''token'' init_state"
    using scenario_token_ready by simp
  have readyC: "token_ready ?C (stackit_service_account_key_path (env_StackITSettings ?C))
                  ''token'' init_state"
    using scenario_token_ready by simp
  have eB: "egress_of ?B ''token'' ''df003e90-b77d-4d31-a06c-cd7f4013076d'' ''production''
              = Inr (str_list [''1.1.1.1/32''])"
       "egress_of ?B ''token'' ''dceaea5e-fc88-4adb-8c7f-6bcb112835bb'' ''non-prod''
              = Inr (str_list [''2.2.2.2/32''])"
    by (simp_all add: egress_of_def scenario_eval str_list_def)
  have pB: "org_projects_of ?B ''token'' ''org-id'' = Inr ?ps"
    by (simp add: org_projects_of_def scenario_eval)
  have vB: "projects_verdict ?B ''token'' (str_list [''1.1.1.1/32'']) (str_list [''2.2.2.2/32''])
              ?ps = Inr False"
    by (simp add: scenario_run_eval scenario_eval acl_is_correct_str_lists)
  have rB: "fst (validate_org ?B ''org-id'' init_state) = Inl acl_mismatch"
  proof -
    have "fst (validate_org ?B ''org-id'' init_state)
            = outcome (projects_verdict ?B ''token'' (str_list [''1.1.1.1/32''])
                         (str_list [''2.2.2.2/32'']) ?ps)"
      by (simp add: validate_org_run[OF readyB] eB pB del: projects_verdict.simps)
    then show ?thesis by (simp only: vB) (simp add: outcome_def)
  qed
  have pC: "project_details_of ?C ''token'' [''project_id_1'', ''project_id_2''] = Inr ?ps"
    by (simp add: project_name_of_def scenario_eval)
  have vC: "projects_verdict ?C ''token'' (str_list [''1.1.1.1/32'']) (str_list [''2.2.2.2/32''])
              ?ps = Inr True"
    by (simp add: scenario_run_eval scenario_eval acl_is_correct_str_lists)
  have rC: "fst (validate_projects ?C [''project_id_1'', ''project_id_2'']
                   (Some [''1.1.1.1/32'']) (Some [''2.2.2.2/32'']) init_state) = Inr ()"
  proof -
    have "fst (validate_projects ?C [''project_id_1'', ''project_id_2'']
                   (Some [''1.1.1.1/32'']) (Some [''2.2.2.2/32'']) init_state)
            = outcome (projects_verdict ?C ''token'' (str_list [''1.1.1.1/32''])
                         (str_list [''2.2.2.2/32'']) ?ps)"
      by (simp add: validate_projects_run[OF readyC] pC
            del: projects_verdict.simps project_details_of.simps)
    then show ?thesis by (simp only: vC) (simp add: outcome_def)
  qed
  from run_fails_iff_some_mismatch[of ?B "''token''" init_state "''org-id''"
         "[''project_id_1'', ''project_id_2'']" "Some [''1.1.1.1/32'']" "Some [''2.2.2.2/32'']"]
       readyB rB eB pB
  have mB: "some_mismatch ?B ''token'' (str_list [''1.1.1.1/32'']) (str_list [''2.2.2.2/32'']) ?ps"
    by auto
  from run_fails_iff_some_mismatch[of ?C "''token''" init_state "''org-id''"
         "[''project_id_1'', ''project_id_2'']" "Some [''1.1.1.1/32'']" "Some [''2.2.2.2/32'']"]
       readyC rC pC
  have mC: "\<not> some_mismatch ?C ''token'' (str_list [''1.1.1.1/32'']) (str_list [''2.2.2.2/32''])
              ?ps"
    by (auto simp: acl_mismatch_def)
  show ?thesis using rB mB rC mC by blast
qed

section \<open>Absent ranges\<close>

lemma py_hash_all_error: "py_hash_all xs = Inl e \<Longrightarrow> e = TypeError"
proof (induction xs)
  case Nil
  then show ?case by simp
next
  case (Cons x xs)
  then show ?case by (cases x) (auto split: sum.splits)
qed

lemma py_set_error: "py_set v = Inl e \<Longrightarrow> e = TypeError"
  by (cases v) (auto simp: py_set_def split: sum.splits dest: py_hash_all_error)

lemma acl_is_correct_none: "acl_is_correct acl JNull = Inl TypeError"
  using py_set_error[of acl]
  by (auto simp: acl_is_correct_def py_set_def split: sum.splits)

lemma check_of_none: "\<exists>e. check_of w t p JNull db = Inl e"
  by (auto simp: check_of_def acl_is_correct_none split: sum.splits)

lemma checks_of_none: "checks_of w t p JNull dbs = Inr cs \<longleftrightarrow> dbs = [] \<and> cs = []"
proof (cases dbs)
  case Nil
  then show ?thesis by auto
next
  case (Cons db dbs')
  from check_of_none[of w t p db] obtain e where "check_of w t p JNull db = Inl e" by blast
  then show ?thesis using Cons by simp
qed

lemma project_verdict_none:
  "project_verdict w t p JNull = Inr ok \<longleftrightarrow> ok \<and> has_no_databases w t p"
  by (auto simp: project_verdict_def has_no_databases_def checks_of_none split: sum.splits)

lemma project_verdict_none_instances:
  "has_instances w t p \<Longrightarrow> \<exists>e. project_verdict w t p JNull = Inl e"
  by (cases "project_verdict w t p JNull")
     (auto simp: project_verdict_none has_instances_def has_no_databases_def split: sum.splits)

lemma expected_range_none [simp]: "expected_range w n JNull JNull = JNull"
  by (cases n) (auto simp: expected_range_def)

lemma py_upper_is_str: "(\<exists>u. py_upper table n = Inr u) = is_str n"
  by (cases n) auto

lemma projects_verdict_none:
  "projects_verdict w t JNull JNull ps = Inr ok
     \<longleftrightarrow> ok \<and> list_all (\<lambda>p. is_str (snd p) \<and> has_no_databases w t (fst p)) ps"
proof (induction ps arbitrary: ok)
  case Nil
  then show ?case by auto
next
  case (Cons p ps)
  show ?case
  proof (cases "py_upper (unicode_upper w) (snd p)")
    case (Inl e)
    then show ?thesis using py_upper_is_str[of "unicode_upper w" "snd p"] by auto
  next
    case u: (Inr u)
    then have str: "is_str (snd p)" using py_upper_is_str[of "unicode_upper w" "snd p"] by auto
    show ?thesis
    proof (cases "project_verdict w t (fst p) JNull")
      case (Inl e)
      then show ?thesis using u project_verdict_none[of w t "fst p"] by auto
    next
      case (Inr ok1)
      then show ?thesis
        using u str project_verdict_none[of w t "fst p" ok1] Cons.IH
        by (cases "projects_verdict w t JNull JNull ps") auto
    qed
  qed
qed

lemma projects_verdict_none_instances:
  "list_ex (\<lambda>p. has_instances w t (fst p)) ps \<Longrightarrow>
   \<exists>e. projects_verdict w t JNull JNull ps = Inl e"
proof (cases "projects_verdict w t JNull JNull ps")
  case (Inl e)
  then show ?thesis by blast
next
  case (Inr ok)
  assume "list_ex (\<lambda>p. has_instances w t (fst p)) ps"
  then obtain p where p: "p \<in> set ps" "has_instances w t (fst p)"
    by (auto simp: list_ex_iff)
  from Inr have "list_all (\<lambda>p. is_str (snd p) \<and> has_no_databases w t (fst p)) ps"
    by (simp add: projects_verdict_none)
  with p(1) have "has_no_databases w t (fst p)" by (auto simp: list_all_iff)
  with p(2) show ?thesis
    by (auto simp: has_instances_def has_no_databases_def split: sum.splits)
qed

lemma project_details_of_ids:
  "project_details_of w t project_ids = Inr ps \<Longrightarrow> map fst ps = map JStr project_ids"
  by (induction project_ids arbitrary: ps) (auto split: sum.splits)

text \<open>
  C10. When \<^verbatim>\<open>validate_projects\<close> runs with both ranges absent and authentication
  succeeds: the comparison of any ACL with the absent range raises \<^verbatim>\<open>TypeError\<close> and
  gives no verdict; the run succeeds exactly when the details of every project are read,
  every name is a string and every project has no database instance; and when the
  details are read and some project has an instance, the run ends with an exception
  that is not the final error of a mismatch.
\<close>

theorem absent_ranges_abort_on_first_database:
  assumes "token_ready w (stackit_service_account_key_path (env_StackITSettings w)) t s"
  shows "acl_is_correct acl JNull = Inl TypeError
       \<and> (fst (validate_projects w project_ids None None s) = Inr ())
           = (\<exists>projects. project_details_of w t project_ids = Inr projects
                \<and> list_all (\<lambda>p. is_str (snd p) \<and> has_no_databases w t (fst p)) projects)
       \<and> (list_ex (\<lambda>i. has_instances w t (JStr i)) project_ids
            \<longrightarrow> (\<exists>e. fst (validate_projects w project_ids None None s) = Inl e
                      \<and> e \<noteq> acl_mismatch))"
proof -
  note run = validate_projects_run[OF assms, of project_ids None None]
  have a: "(fst (validate_projects w project_ids None None s) = Inr ())
           = (\<exists>projects. project_details_of w t project_ids = Inr projects
                \<and> list_all (\<lambda>p. is_str (snd p) \<and> has_no_databases w t (fst p)) projects)"
  proof (cases "project_details_of w t project_ids")
    case (Inl e)
    then show ?thesis unfolding run by simp
  next
    case (Inr projects)
    have "(projects_verdict w t JNull JNull projects = Inr True)
            = list_all (\<lambda>p. is_str (snd p) \<and> has_no_databases w t (fst p)) projects"
      using projects_verdict_none[of w t projects True] by simp
    moreover have "(outcome v = Inr ()) = (v = Inr True)" for v
      by (cases v) (auto simp: outcome_def acl_mismatch_def)
    ultimately show ?thesis
      unfolding run Inr by simp
  qed
  have b: "\<exists>e. fst (validate_projects w project_ids None None s) = Inl e \<and> e \<noteq> acl_mismatch"
    if ex: "list_ex (\<lambda>i. has_instances w t (JStr i)) project_ids"
  proof (cases "project_details_of w t project_ids")
    case (Inl e)
    then show ?thesis
      unfolding run using project_details_of_no_exception[of w t project_ids]
      by (auto simp: acl_mismatch_def)
  next
    case (Inr projects)
    have "list_ex (\<lambda>p. has_instances w t (fst p)) projects"
    proof -
      from ex obtain i where i: "i \<in> set project_ids" "has_instances w t (JStr i)"
        by (auto simp: list_ex_iff)
      then have "JStr i \<in> set (map fst projects)"
        using project_details_of_ids[OF Inr] by simp
      then obtain p where p: "p \<in> set projects" "fst p = JStr i" by auto
      then have "has_instances w t (fst p)" using i(2) by simp
      with p(1) show ?thesis unfolding list_ex_iff by blast
    qed
    from projects_verdict_none_instances[OF this] obtain e where
      e: "projects_verdict w t JNull JNull projects = Inl e" by blast
    then have "e \<noteq> acl_mismatch"
      using projects_verdict_no_exception[of w t JNull JNull projects]
      by (auto simp: acl_mismatch_def)
    then show ?thesis unfolding run Inr using e by (simp add: outcome_def)
  qed
  show ?thesis using a b acl_is_correct_none by blast
qed


theorem absent_ranges_abort_on_first_database_witness:
  "fst (validate_projects (scenario [''1.1.1.1/32''] None) [''project_id_2''] None None
          init_state) = Inr ()
   \<and> fst (validate_projects (scenario [''1.1.1.1/32''] None) [''project_id_2'', ''project_id_1'']
          None None init_state) = Inl TypeError
   \<and> (\<exists>e. fst (validate_projects (scenario [''1.1.1.1/32''] None)
                 [''project_id_2'', ''project_id_1''] None None init_state) = Inl e
          \<and> e \<noteq> acl_mismatch)"
proof -
  let ?C = "scenario [''1.1.1.1/32''] None"
  have ready: "token_ready ?C (stackit_service_account_key_path (env_StackITSettings ?C))
                  ''token'' init_state"
    using scenario_token_ready by simp
  have none: "has_no_databases ?C ''token'' (JStr ''project_id_2'')"
    by (simp add: has_no_databases_def scenario_eval)
  have some: "has_instances ?C ''token'' (JStr ''project_id_1'')"
    by (simp add: has_instances_def scenario_eval)
  have d2: "project_details_of ?C ''token'' [''project_id_2'']
              = Inr [(JStr ''project_id_2'', JStr ''project_name_2 NON-PROD'')]"
    by (simp add: project_name_of_def scenario_eval)
  have d21: "project_details_of ?C ''token'' [''project_id_2'', ''project_id_1'']
              = Inr [(JStr ''project_id_2'', JStr ''project_name_2 NON-PROD''),
                     (JStr ''project_id_1'', JStr ''project_name_1 PROD'')]"
    by (simp add: project_name_of_def scenario_eval)
  have v: "projects_verdict ?C ''token'' JNull JNull
             [(JStr ''project_id_2'', JStr ''project_name_2 NON-PROD''),
              (JStr ''project_id_1'', JStr ''project_name_1 PROD'')] = Inl TypeError"
    by (simp add: project_verdict_def check_of_def scenario_eval acl_is_correct_none)
  have r: "fst (validate_projects ?C [''project_id_2'', ''project_id_1''] None None init_state)
             = Inl TypeError"
    unfolding validate_projects_run[OF ready] d21 by (simp add: v outcome_def del: projects_verdict.simps)
  have ok: "fst (validate_projects ?C [''project_id_2''] None None init_state) = Inr ()"
    using absent_ranges_abort_on_first_database[OF ready, of JNull "[''project_id_2'']"] d2 none
    by simp
  have ab: "\<exists>e. fst (validate_projects ?C [''project_id_2'', ''project_id_1''] None None
                       init_state) = Inl e \<and> e \<noteq> acl_mismatch"
    using absent_ranges_abort_on_first_database[OF ready, of JNull
            "[''project_id_2'', ''project_id_1'']"] some
    by simp
  show ?thesis using ok r ab by blast
qed

section \<open>The cache of tokens\<close>

lemma get_bearer_token_hit:
  "map_of (token_cache s) k = Some v \<Longrightarrow>
   get_bearer_token w k s =
     (Inr v, s\<lparr>token_cache := (k, v) # filter (\<lambda>kv. fst kv \<noteq> k) (token_cache s)\<rparr>)"
  by (simp add: get_bearer_token_def lru_cache_def)

lemma get_bearer_token_miss:
  "map_of (token_cache s) k = None \<Longrightarrow> cli_token w k = Some t \<Longrightarrow>
   get_bearer_token w k s =
     (Inr t, s\<lparr>activations := activations s @ [k],
               token_cache := take lru_maxsize ((k, t) # token_cache s)\<rparr>)"
  by (auto simp: get_bearer_token_def lru_cache_def get_bearer_token_wrapped_def cli_token_def
        Let_def split: option.splits if_splits)

lemma first_uses_cong: "set seen = set seen' \<Longrightarrow> first_uses seen ks = first_uses seen' ks"
proof (induction ks arbitrary: seen seen')
  case Nil
  then show ?case by simp
next
  case (Cons k ks)
  have "set (k # seen) = set (k # seen')" using Cons.prems by simp
  then have "first_uses (k # seen) ks = first_uses (k # seen') ks" by (rule Cons.IH)
  moreover have "first_uses seen ks = first_uses seen' ks" using Cons.prems by (rule Cons.IH)
  moreover have "(k \<in> set seen) = (k \<in> set seen')" using Cons.prems by simp
  ultimately show ?case by simp
qed

lemma token_calls_step:
  assumes "get_bearer_token w k s = (r, s1)"
  shows "token_calls w (k # ks) s = (r # fst (token_calls w ks s1), snd (token_calls w ks s1))"
  using assms by (simp split: prod.splits)

lemma token_calls_append:
  "token_calls w (ks @ ks') s =
     (fst (token_calls w ks s) @ fst (token_calls w ks' (snd (token_calls w ks s))),
      snd (token_calls w ks' (snd (token_calls w ks s))))"
  by (induction ks arbitrary: s) (simp_all split: prod.splits)

lemma token_calls_bounded:
  assumes "distinct (map fst (token_cache s))"
    and "\<forall>kv \<in> set (token_cache s). cli_token w (fst kv) = Some (snd kv)"
    and "card (fst ` set (token_cache s) \<union> set ks) \<le> lru_maxsize"
    and "\<forall>k \<in> set ks. cli_token w k \<noteq> None"
  shows "activations (snd (token_calls w ks s))
           = activations s @ first_uses (map fst (token_cache s)) ks
       \<and> list_all2 (\<lambda>k r. \<exists>t. cli_token w k = Some t \<and> r = Inr t)
           ks (fst (token_calls w ks s))"
  using assms
proof (induction ks arbitrary: s)
  case Nil
  then show ?case by simp
next
  case (Cons k ks)
  let ?c = "token_cache s"
  have rest: "\<forall>k \<in> set ks. cli_token w k \<noteq> None" using Cons.prems(4) by simp
  have continue: ?case
    if g: "get_bearer_token w k s = (Inr t, s1)"
      and tok: "cli_token w k = Some t"
      and d1: "distinct (map fst (token_cache s1))"
      and ok1: "\<forall>kv \<in> set (token_cache s1). cli_token w (fst kv) = Some (snd kv)"
      and c1: "card (fst ` set (token_cache s1) \<union> set ks) \<le> lru_maxsize"
      and here: "\<And>xs. activations s1 @ first_uses (map fst (token_cache s1)) xs
                   = activations s @ first_uses (map fst ?c) (k # xs)"
    for t s1
  proof -
    from Cons.IH[OF d1 ok1 c1 rest] have
      n: "activations (snd (token_calls w ks s1))
            = activations s1 @ first_uses (map fst (token_cache s1)) ks"
         "list_all2 (\<lambda>k r. \<exists>t. cli_token w k = Some t \<and> r = Inr t)
            ks (fst (token_calls w ks s1))"
      by blast+
    have "activations (snd (token_calls w (k # ks) s))
            = activations s @ first_uses (map fst ?c) (k # ks)"
      unfolding token_calls_step[OF g] snd_conv n(1) here ..
    moreover have "list_all2 (\<lambda>k r. \<exists>t. cli_token w k = Some t \<and> r = Inr t)
            (k # ks) (fst (token_calls w (k # ks) s))"
      unfolding token_calls_step[OF g] fst_conv using n(2) tok by simp
    ultimately show ?thesis by blast
  qed
  show ?case
  proof (cases "map_of ?c k")
    case (Some v)
    then have in_c: "(k, v) \<in> set ?c" by (rule map_of_SomeD)
    have kin: "k \<in> fst ` set ?c"
      using in_c by (metis fst_conv image_eqI)
    define s1 where "s1 = s\<lparr>token_cache := (k, v) # filter (\<lambda>kv. fst kv \<noteq> k) ?c\<rparr>"
    have g: "get_bearer_token w k s = (Inr v, s1)"
      using get_bearer_token_hit[OF Some, of w] by (simp add: s1_def)
    have keys: "fst ` set (token_cache s1) = fst ` set ?c"
    proof
      show "fst ` set (token_cache s1) \<subseteq> fst ` set ?c"
        using kin by (auto simp: s1_def)
      show "fst ` set ?c \<subseteq> fst ` set (token_cache s1)"
      proof
        fix x assume "x \<in> fst ` set ?c"
        then obtain kv where kv: "kv \<in> set ?c" "x = fst kv" by blast
        show "x \<in> fst ` set (token_cache s1)"
        proof (cases "x = k")
          case True
          then show ?thesis by (simp add: s1_def)
        next
          case False
          then have "kv \<in> set (filter (\<lambda>kv. fst kv \<noteq> k) ?c)" using kv by simp
          then show ?thesis using kv(2) by (simp add: s1_def)
        qed
      qed
    qed
    have d1: "distinct (map fst (token_cache s1))"
      using Cons.prems(1) by (auto simp: s1_def distinct_map_filter)
    have ok1: "\<forall>kv \<in> set (token_cache s1). cli_token w (fst kv) = Some (snd kv)"
      using Cons.prems(2) in_c by (auto simp: s1_def)
    have c1: "card (fst ` set (token_cache s1) \<union> set ks) \<le> lru_maxsize"
    proof -
      have "fst ` set ?c \<union> set (k # ks) = fst ` set ?c \<union> set ks"
        using kin by auto
      then show ?thesis using Cons.prems(3) keys by simp
    qed
    have tok: "cli_token w k = Some v"
      using Cons.prems(2) in_c by auto
    have here: "activations s1 @ first_uses (map fst (token_cache s1)) xs
                  = activations s @ first_uses (map fst ?c) (k # xs)" for xs
    proof -
      have "first_uses (map fst (token_cache s1)) xs = first_uses (map fst ?c) xs"
        by (rule first_uses_cong) (use keys in simp)
      moreover have "k \<in> set (map fst ?c)" using kin by simp
      ultimately show ?thesis by (simp add: s1_def)
    qed
    show ?thesis by (rule continue[OF g tok d1 ok1 c1 here])
  next
    case None
    then have fresh: "k \<notin> fst ` set ?c" by (simp add: map_of_eq_None_iff)
    from Cons.prems(4) obtain t' where cli: "cli_token w k = Some t'" by auto
    have len: "Suc (length ?c) \<le> lru_maxsize"
    proof -
      have "length ?c = card (fst ` set ?c)"
        using distinct_card[OF Cons.prems(1)] by simp
      moreover have "card (insert k (fst ` set ?c)) \<le> card (fst ` set ?c \<union> set (k # ks))"
        by (rule card_mono) auto
      moreover have "card (insert k (fst ` set ?c)) = Suc (card (fst ` set ?c))"
        using fresh by simp
      ultimately show ?thesis using Cons.prems(3) by linarith
    qed
    then have tk: "take lru_maxsize ((k, t') # ?c) = (k, t') # ?c" by simp
    define s1 where
      "s1 = s\<lparr>activations := activations s @ [k], token_cache := (k, t') # ?c\<rparr>"
    have g: "get_bearer_token w k s = (Inr t', s1)"
      using get_bearer_token_miss[OF None cli] by (simp only: tk s1_def)
    have d1: "distinct (map fst (token_cache s1))"
      using Cons.prems(1) fresh by (simp add: s1_def)
    have ok1: "\<forall>kv \<in> set (token_cache s1). cli_token w (fst kv) = Some (snd kv)"
      using Cons.prems(2) cli by (auto simp: s1_def)
    have c1: "card (fst ` set (token_cache s1) \<union> set ks) \<le> lru_maxsize"
      using Cons.prems(3) by (simp add: s1_def)
    have here: "activations s1 @ first_uses (map fst (token_cache s1)) xs
                  = activations s @ first_uses (map fst ?c) (k # xs)" for xs
      using fresh by (simp add: s1_def)
    show ?thesis by (rule continue[OF g cli d1 ok1 c1 here])
  qed
qed

lemma set_first_uses: "set (first_uses seen ks) = set ks - set seen"
  by (induction ks arbitrary: seen) auto

lemma distinct_first_uses: "distinct (first_uses seen ks)"
  by (induction ks arbitrary: seen) (auto simp: set_first_uses)

lemma count_list_distinct: "distinct xs \<Longrightarrow> x \<in> set xs \<Longrightarrow> count_list xs x = 1"
  by (induction xs) auto

text \<open>
  C6, as the code has it. Within one process, for every sequence of calls of
  \<^verbatim>\<open>get_bearer_token\<close>, by any caller, with at most 128 different key paths (what
  the cache of \<^verbatim>\<open>lru_cache\<close> holds) for each of which the command line tool starts and
  ends with return code 0: the tool is run exactly once for each key path passed, at the
  first call with it, and every call returns the token the tool gives for its key path,
  the later calls with a key path from the cache.
\<close>

theorem one_activation_per_key_path:
  assumes "card (set ks) \<le> lru_maxsize"
    and "\<forall>k \<in> set ks. cli_token w k \<noteq> None"
  shows "activations (snd (token_calls w ks init_state)) = first_uses [] ks
       \<and> (\<forall>k \<in> set ks.
             count_list (activations (snd (token_calls w ks init_state))) k = 1)
       \<and> list_all2 (\<lambda>k r. \<exists>t. cli_token w k = Some t \<and> r = Inr t)
           ks (fst (token_calls w ks init_state))"
proof -
  have "distinct (map fst (token_cache init_state))"
    and "\<forall>kv \<in> set (token_cache init_state). cli_token w (fst kv) = Some (snd kv)"
    and "card (fst ` set (token_cache init_state) \<union> set ks) \<le> lru_maxsize"
    using assms(1) by (simp_all add: init_state_def)
  from token_calls_bounded[OF this assms(2)] have
    n: "activations (snd (token_calls w ks init_state)) = first_uses [] ks"
       "list_all2 (\<lambda>k r. \<exists>t. cli_token w k = Some t \<and> r = Inr t)
          ks (fst (token_calls w ks init_state))"
    by (auto simp: init_state_def)
  have "count_list (first_uses [] ks) k = 1" if "k \<in> set ks" for k
    using that count_list_distinct[OF distinct_first_uses, of k "[]" ks]
    by (simp add: set_first_uses)
  then have "\<forall>k \<in> set ks.
               count_list (activations (snd (token_calls w ks init_state))) k = 1"
    unfolding n(1) by blast
  with n show ?thesis by blast
qed

lemma canned_cli_token: "cli_token (canned body) k = Some ''token''"
  by (simp add: cli_token_def canned_def strip_def is_space_of_def is_space_def is_ascii_def)

lemma canned_get_bearer_token:
  "get_bearer_token (canned body) k s =
     (case map_of (token_cache s) k of
        Some v \<Rightarrow> (Inr v, s\<lparr>token_cache := (k, v) # filter (\<lambda>kv. fst kv \<noteq> k) (token_cache s)\<rparr>)
      | None \<Rightarrow> (Inr ''token'', s\<lparr>activations := activations s @ [k],
                     token_cache := take lru_maxsize ((k, ''token'') # token_cache s)\<rparr>))"
  by (auto simp: get_bearer_token_hit get_bearer_token_miss canned_cli_token split: option.splits)

theorem one_activation_per_key_path_witness:
  "activations (snd (token_calls (canned JNull) [''a'', ''b'', ''a'', ''a''] init_state))
     = [''a'', ''b'']
   \<and> fst (token_calls (canned JNull) [''a'', ''b'', ''a'', ''a''] init_state)
     = [Inr ''token'', Inr ''token'', Inr ''token'', Inr ''token'']"
proof -
  let ?ks = "[''a'', ''b'', ''a'', ''a'']"
  have c: "card (set ?ks) \<le> lru_maxsize"
    by (simp add: lru_maxsize_def card_insert_if)
  have ok: "\<forall>k \<in> set ?ks. cli_token (canned JNull) k \<noteq> None"
    by (simp add: canned_cli_token)
  from one_activation_per_key_path[OF c ok] show ?thesis
    by (simp add: canned_cli_token list_all2_Cons1)
qed

lemma take_append_take: "take n (xs @ take n ys) = take n (xs @ ys)"
  by (simp add: min_def)

lemma canned_fresh_calls:
  assumes "distinct ks"
    and "set ks \<inter> fst ` set (token_cache s) = {}"
    and "length (token_cache s) \<le> lru_maxsize"
  shows "token_calls (canned body) ks s =
           (map (\<lambda>k. Inr ''token'') ks,
            s\<lparr>activations := activations s @ ks,
              token_cache := take lru_maxsize
                               (rev (map (\<lambda>k. (k, ''token'')) ks) @ token_cache s)\<rparr>)"
  using assms
proof (induction ks arbitrary: s)
  case Nil
  then show ?case by simp
next
  case (Cons k ks)
  let ?s1 = "s\<lparr>activations := activations s @ [k],
               token_cache := take lru_maxsize ((k, ''token'') # token_cache s)\<rparr>"
  have "k \<notin> fst ` set (token_cache s)" using Cons.prems(2) by auto
  then have "map_of (token_cache s) k = None" by (simp add: map_of_eq_None_iff)
  then have g: "get_bearer_token (canned body) k s = (Inr ''token'', ?s1)"
    by (simp add: canned_get_bearer_token)
  have "set (take lru_maxsize ((k, ''token'') # token_cache s))
          \<subseteq> insert (k, ''token'') (set (token_cache s))"
    using set_take_subset[of lru_maxsize "(k, ''token'') # token_cache s"] by simp
  then have "fst ` set (token_cache ?s1) \<subseteq> insert k (fst ` set (token_cache s))"
    by auto
  then have p2: "set ks \<inter> fst ` set (token_cache ?s1) = {}"
    using Cons.prems(1,2) by auto
  have p3: "length (token_cache ?s1) \<le> lru_maxsize" by simp
  have d: "distinct ks" using Cons.prems(1) by simp
  show ?case
    unfolding token_calls_step[OF g] Cons.IH[OF d p2 p3]
    using take_append_take[of lru_maxsize "rev (map (\<lambda>k. (k, ''token'')) ks)"
            "(k, ''token'') # token_cache s"]
    by simp
qed

lemma key_path_no_inj: "inj key_path_no"
proof (rule injI)
  fix m n assume "key_path_no m = key_path_no n"
  then have "length (key_path_no m) = length (key_path_no n)" by simp
  then show "m = n" by (simp add: key_path_no_def)
qed

lemma many_key_paths_Cons:
  "many_key_paths = key_path_no 0 # map key_path_no [1..<129]"
  by (simp add: many_key_paths_def upt_conv_Cons del: upt_Suc)

lemma distinct_many_key_paths: "distinct many_key_paths"
  unfolding many_key_paths_def
  by (simp add: distinct_map inj_on_subset[OF key_path_no_inj] del: upt_Suc)

text \<open>
  After calls with 129 different key paths, all successful, the cache has dropped the
  first of them: one more call with that key path runs the command line tool a second
  time. And a tool that ends with return code 1 leaves nothing in the cache: a second
  call with the same key path runs it a second time.
\<close>

theorem repeated_activation_counterexample:
  "count_list
     (activations (snd (token_calls (canned JNull) (many_key_paths @ [key_path_no 0]) init_state)))
     (key_path_no 0) = 2
   \<and> count_list
       (activations (snd (token_calls failing_tool [key_file, key_file] init_state)))
       key_file = 2"
proof -
  let ?rest = "map key_path_no [1..<129]"
  let ?s1 = "init_state\<lparr>activations := activations init_state @ many_key_paths,
              token_cache := take lru_maxsize
                (rev (map (\<lambda>k. (k, ''token'')) many_key_paths) @ token_cache init_state)\<rparr>"
  have first: "token_calls (canned JNull) many_key_paths init_state
                 = (map (\<lambda>k. Inr ''token'') many_key_paths, ?s1)"
    by (rule canned_fresh_calls) (simp_all add: distinct_many_key_paths init_state_def)
  have cache: "token_cache ?s1 = rev (map (\<lambda>k. (k, ''token'')) ?rest)"
    by (simp add: many_key_paths_Cons init_state_def lru_maxsize_def del: upt_Suc)
  have "key_path_no 0 \<notin> set ?rest"
    using distinct_many_key_paths unfolding many_key_paths_Cons by simp
  then have "key_path_no 0 \<notin> fst ` set (token_cache ?s1)"
    unfolding cache by (simp add: image_image del: upt_Suc)
  then have miss: "map_of (token_cache ?s1) (key_path_no 0) = None"
    by (simp only: map_of_eq_None_iff not_False_eq_True)
  have "\<exists>s2. get_bearer_token (canned JNull) (key_path_no 0) ?s1 = (Inr ''token'', s2)
          \<and> activations s2 = many_key_paths @ [key_path_no 0]"
    unfolding canned_get_bearer_token miss by (simp add: init_state_def)
  then obtain s2 where
    s2: "get_bearer_token (canned JNull) (key_path_no 0) ?s1 = (Inr ''token'', s2)"
        "activations s2 = many_key_paths @ [key_path_no 0]"
    by blast
  have "snd (token_calls (canned JNull) (many_key_paths @ [key_path_no 0]) init_state) = s2"
    unfolding token_calls_append first snd_conv using s2(1) by simp
  moreover have "count_list many_key_paths (key_path_no 0) = 1"
    by (rule count_list_distinct[OF distinct_many_key_paths]) (simp add: many_key_paths_Cons)
  ultimately have many: "count_list
     (activations (snd (token_calls (canned JNull) (many_key_paths @ [key_path_no 0]) init_state)))
     (key_path_no 0) = 2"
    by (simp add: s2(2))
  have "activations (snd (token_calls failing_tool [key_file, key_file] init_state))
          = [key_file, key_file]"
    by (simp add: get_bearer_token_def lru_cache_def get_bearer_token_wrapped_def
          failing_tool_def init_state_def Let_def)
  then have "count_list
       (activations (snd (token_calls failing_tool [key_file, key_file] init_state)))
       key_file = 2"
    by simp
  with many show ?thesis by blast
qed
section \<open>The ranges and the environment\<close>

text \<open>
  C8, against the code. With neither option given, \<^verbatim>\<open>validate_projects\<close> receives
  \<^verbatim>\<open>None\<close> for both ranges whatever the environment holds: the variables
  \<^verbatim>\<open>PROD_EGRESS_RANGE\<close> and \<^verbatim>\<open>NON_PROD_EGRESS_RANGE\<close> that the help texts name are
  not read. In the scenario where every ACL is correct, the run with the ranges in the
  environment ends with \<^verbatim>\<open>TypeError\<close>, the run with the same ranges as options
  succeeds.
\<close>

theorem environment_ranges_are_not_read:
  "validate_projects_command w env project_ids [] [] = validate_projects w project_ids None None
   \<and> fst (validate_projects_command (scenario [''1.1.1.1/32''] (Some [''2.2.2.2/32'']))
          ranges_env [''project_id_1'', ''project_id_2''] [] [] init_state) = Inl TypeError
   \<and> fst (validate_projects_command (scenario [''1.1.1.1/32''] (Some [''2.2.2.2/32'']))
          ranges_env [''project_id_1'', ''project_id_2''] [''1.1.1.1/32''] [''2.2.2.2/32'']
          init_state) = Inr ()"
proof -
  let ?A = "scenario [''1.1.1.1/32''] (Some [''2.2.2.2/32''])"
  let ?ps = "[(JStr ''project_id_1'', JStr ''project_name_1 PROD''),
              (JStr ''project_id_2'', JStr ''project_name_2 NON-PROD'')]"
  have ignored: "validate_projects_command w env project_ids [] []
                   = validate_projects w project_ids None None" for w env project_ids
    by (simp add: validate_projects_command_def typer_option_value_def
          prod_egress_range_option_def non_prod_egress_range_option_def)
  have given: "validate_projects_command ?A ranges_env [''project_id_1'', ''project_id_2'']
                 [''1.1.1.1/32''] [''2.2.2.2/32'']
               = validate_projects ?A [''project_id_1'', ''project_id_2'']
                   (Some [''1.1.1.1/32'']) (Some [''2.2.2.2/32''])"
    by (simp add: validate_projects_command_def typer_option_value_def)
  have ready: "token_ready ?A (stackit_service_account_key_path (env_StackITSettings ?A))
                  ''token'' init_state"
    using scenario_token_ready by simp
  have d: "project_details_of ?A ''token'' [''project_id_1'', ''project_id_2''] = Inr ?ps"
    by (simp add: project_name_of_def scenario_eval)
  have v0: "projects_verdict ?A ''token'' JNull JNull ?ps = Inl TypeError"
    by (simp add: project_verdict_def check_of_def scenario_eval acl_is_correct_none)
  have v1: "projects_verdict ?A ''token'' (str_list [''1.1.1.1/32''])
              (str_list [''2.2.2.2/32'']) ?ps = Inr True"
    by (simp add: scenario_run_eval scenario_eval acl_is_correct_str_lists)
  have r0: "fst (validate_projects ?A [''project_id_1'', ''project_id_2''] None None init_state)
              = Inl TypeError"
    unfolding validate_projects_run[OF ready] d
    by (simp add: v0 outcome_def del: projects_verdict.simps)
  have r1: "fst (validate_projects ?A [''project_id_1'', ''project_id_2'']
                   (Some [''1.1.1.1/32'']) (Some [''2.2.2.2/32'']) init_state) = Inr ()"
    unfolding validate_projects_run[OF ready] d
    by (simp add: v1 outcome_def del: projects_verdict.simps)
  show ?thesis
    unfolding ignored given using r0 r1 by simp
qed

end
